theory Spec2Isabelle
  imports Main "HOL-Library.Word" "HOL-Library.AList"
begin

unbundle bit_operations_syntax

section \<open>Strings and exceptions\<close>

text \<open>
  The extension is C++ over \<^verbatim>\<open>std::string\<close>. A string is a \<^typ>\<open>string\<close>, a position is a
  \<^typ>\<open>nat\<close>, and \<^verbatim>\<open>std::string::npos\<close> is \<^const>\<open>None\<close>. The sizes the read engine computes
  with (\<^verbatim>\<open>idx_t\<close>, \<^verbatim>\<open>int64_t\<close>) are 64-bit words, so that subtraction wraps as it does in
  the source.
\<close>

type_synonym idx_t = "64 word"

text \<open>\<^verbatim>\<open>s.find(needle, pos)\<close>: the first position at or after \<open>pos\<close> where \<open>needle\<close> starts.\<close>

fun find_at :: "string \<Rightarrow> string \<Rightarrow> nat \<Rightarrow> nat option" where
  "find_at [] needle i = (if needle = [] then Some i else None)"
| "find_at (c # s) needle i =
     (if take (length needle) (c # s) = needle then Some i else find_at s needle (Suc i))"

definition str_find :: "string \<Rightarrow> string \<Rightarrow> nat \<Rightarrow> nat option" where
  "str_find s needle pos = (if length s < pos then None else find_at (drop pos s) needle pos)"

definition str_find_char :: "string \<Rightarrow> char \<Rightarrow> nat \<Rightarrow> nat option" where
  "str_find_char s c pos = str_find s [c] pos"

text \<open>\<^verbatim>\<open>s.find_first_of(chars)\<close>: the first position holding one of \<open>chars\<close>.\<close>

fun first_of_at :: "string \<Rightarrow> string \<Rightarrow> nat \<Rightarrow> nat option" where
  "first_of_at [] chars i = None"
| "first_of_at (c # s) chars i = (if c \<in> set chars then Some i else first_of_at s chars (Suc i))"

definition find_first_of :: "string \<Rightarrow> string \<Rightarrow> nat option" where
  "find_first_of s chars = first_of_at s chars 0"

text \<open>
  \<^verbatim>\<open>s.substr(pos, n)\<close> and \<^verbatim>\<open>s.substr(pos)\<close>. The source only calls them with
  \<open>pos \<le> s.size()\<close>, where they do not throw.
\<close>

definition substr :: "string \<Rightarrow> nat \<Rightarrow> nat \<Rightarrow> string" where
  "substr s pos n = take n (drop pos s)"

definition substr_from :: "string \<Rightarrow> nat \<Rightarrow> string" where
  "substr_from s pos = drop pos s"

text \<open>
  \<^verbatim>\<open>s.rfind(needle, 0)\<close>: \<open>0\<close> when \<open>s\<close> starts with \<open>needle\<close>, \<^verbatim>\<open>npos\<close> (all bits set)
  otherwise. The source multiplies two such results, so the value is kept as a word.
\<close>

definition npos :: idx_t where
  "npos = - 1"

definition rfind_0 :: "string \<Rightarrow> string \<Rightarrow> idx_t" where
  "rfind_0 s needle = (if take (length needle) s = needle then 0 else npos)"

text \<open>
  Exceptions are values. The constructor is the C++ exception class, its argument names
  the \<^verbatim>\<open>throw\<close> statement (and carries the text formatted into the message).
  \<open>NullPointerDereference\<close> is no exception: it stands for the places where the source
  dereferences a pointer that it has not tested and that is null. \<open>BufferOverrun\<close> is none
  either: it stands for an access beyond the end of an array.
\<close>

datatype throw_site =
    Url_needs_scheme
  | Invalid_url_format string
  | Read_range_failed
  | List_blobs_failed string
  | Invalid_connection_string
  | Connection_string_mismatch string
  | Unknown_credential_provider string
  | Missing_client_secret_or_certificate
  | Bad_transport_option_type string
  | Unsupported_provider string
  | No_valid_credentials
  | Missing_secret_key string
  | No_file_opener
  | Open_failed
  | Open_failed_unknown

datatype error =
    IOException throw_site
  | InvalidInputException throw_site
  | InternalException throw_site
  | NullPointerDereference
  | BufferOverrun

section \<open>Functions of the host engine\<close>

text \<open>
  Modelled from the spec: \<^verbatim>\<open>LikeFun::Glob\<close>, the per-segment matcher, belongs to the host
  engine and is not part of this repository. The spec gives its contract: shell-style glob
  on one segment with \<open>*\<close> (any run of characters), \<open>?\<close> (any one character) and
  \<open>[...]\<close> (a character class, with ranges \<open>a-z\<close> and negation \<open>[!...]\<close>); a backslash
  makes the next character literal.
\<close>

fun class_member :: "char \<Rightarrow> string \<Rightarrow> bool" where
  "class_member c [] = False"
| "class_member c [p] = (c = p)"
| "class_member c [p, q] = (c = p \<or> c = q)"
| "class_member c (lo # d # hi # items) =
     (if d = CHR ''-''
      then ((of_char lo :: nat) \<le> of_char c \<and> (of_char c :: nat) \<le> of_char hi)
           \<or> class_member c items
      else c = lo \<or> class_member c (d # hi # items))"

definition parse_bracket :: "char \<Rightarrow> string \<Rightarrow> (bool \<times> string) option" where
  "parse_bracket c ps =
     (case dropWhile (\<lambda>q. q \<noteq> CHR '']'') ps of
        [] \<Rightarrow> None
      | _ # rest \<Rightarrow>
          (let body = takeWhile (\<lambda>q. q \<noteq> CHR '']'') ps
           in Some (case body of
                      [] \<Rightarrow> False
                    | b # bs \<Rightarrow>
                        if b = CHR ''!'' then \<not> class_member c bs else class_member c body,
                    rest)))"

lemma parse_bracket_length:
  assumes "parse_bracket c ps = Some (hit, r)"
  shows "length r < length ps"
proof -
  from assms obtain q where "dropWhile (\<lambda>q. q \<noteq> CHR '']'') ps = q # r"
    by (auto simp: parse_bracket_def Let_def split: list.splits)
  then have "Suc (length r) = length (dropWhile (\<lambda>q. q \<noteq> CHR '']'') ps)"
    by simp
  also have "\<dots> \<le> length ps"
    by (rule length_dropWhile_le)
  finally show ?thesis by simp
qed

function LikeFun_Glob :: "string \<Rightarrow> string \<Rightarrow> bool" where
  "LikeFun_Glob s [] = (s = [])"
| "LikeFun_Glob [] (p # ps) = (p = CHR ''*'' \<and> LikeFun_Glob [] ps)"
| "LikeFun_Glob (c # cs) (p # ps) =
     (if p = CHR ''*'' then LikeFun_Glob (c # cs) ps \<or> LikeFun_Glob cs (p # ps)
      else if p = CHR ''?'' then LikeFun_Glob cs ps
      else if p = CHR 0x5C then
        (case ps of [] \<Rightarrow> False | q # qs \<Rightarrow> c = q \<and> LikeFun_Glob cs qs)
      else if p = CHR ''['' then
        (case parse_bracket c ps of
           None \<Rightarrow> False
         | Some (hit, rest) \<Rightarrow> hit \<and> LikeFun_Glob cs rest)
      else c = p \<and> LikeFun_Glob cs ps)"
  by pat_completeness auto
termination
  by (relation "measure (\<lambda>(s, p). length s + length p)")
     (auto dest: parse_bracket_length)

text \<open>
  Modelled from the spec: \<^verbatim>\<open>StringUtil::Split\<close> is the host engine's as well. Keys and
  patterns are compared as slash-split segment sequences: the pieces between separators,
  empty pieces dropped, and the input itself when nothing else is left. The second form
  (a \<^verbatim>\<open>char\<close> delimiter, used for the semicolon-separated credential chain) reads with
  \<^verbatim>\<open>getline\<close>: every piece is kept but an empty last one.
\<close>

primrec pieces :: "char \<Rightarrow> string \<Rightarrow> string list" where
  "pieces sep [] = [[]]"
| "pieces sep (c # s) =
     (if c = sep then [] # pieces sep s
      else case pieces sep s of [] \<Rightarrow> [[c]] | x # xs \<Rightarrow> (c # x) # xs)"

definition StringUtil_Split :: "string \<Rightarrow> char \<Rightarrow> string list" where
  "StringUtil_Split input sep =
     (let splits = filter (\<lambda>s. s \<noteq> []) (pieces sep input)
      in if splits = [] then [input] else splits)"

definition StringUtil_Split_lines :: "string \<Rightarrow> char \<Rightarrow> string list" where
  "StringUtil_Split_lines str delimiter =
     (let ps = pieces delimiter str in if last ps = [] then butlast ps else ps)"

section \<open>The glob matcher\<close>

text \<open>
  \<^verbatim>\<open>Match(key, key_end, pattern, pattern_end)\<close> of \<^verbatim>\<open>azure_filesystem.cpp\<close>. The iterator
  ranges are the lists of what is left of the key and of the pattern. \<open>Match\<close> is the outer
  \<^verbatim>\<open>while\<close> loop; \<open>Match_suffixes\<close> is the inner loop of the \<open>**\<close> branch, which tries the
  rest of the pattern at the current key position, then advances the key.
\<close>

fun Match :: "string list \<Rightarrow> string list \<Rightarrow> bool"
  and Match_suffixes :: "string list \<Rightarrow> string list \<Rightarrow> bool" where
  "Match [] pattern = (pattern = [])"
| "Match (k # key) [] = False"
| "Match (k # key) (p # pattern) =
     (if p = ''**'' then
        (if pattern = [] then True else Match_suffixes (k # key) pattern)
      else if \<not> LikeFun_Glob k p then False
      else Match key pattern)"
| "Match_suffixes [] pattern = False"
| "Match_suffixes (k # key) pattern =
     (if Match (k # key) pattern then True else Match_suffixes key pattern)"

section \<open>The URL parser\<close>

record AzureParsedUrl =
  container :: string
  storage_account_name :: string
  endpoint :: string
  prefix :: string
  path :: string

text \<open>
  \<^verbatim>\<open>AzureStorageFileSystem::ParseUrl\<close>. After the scheme test \<^verbatim>\<open>url.find("//")\<close> always
  succeeds; the value written for \<^verbatim>\<open>npos + 2\<close> is what the unsigned addition gives.
\<close>

definition ParseUrl :: "string \<Rightarrow> error + AzureParsedUrl" where
  "ParseUrl url =
     (if rfind_0 url ''azure://'' * rfind_0 url ''az://'' \<noteq> 0
      then Inl (IOException Url_needs_scheme)
      else
        let prefix_end_pos = (case str_find url ''//'' 0 of Some p \<Rightarrow> p + 2 | None \<Rightarrow> 1);
            dot_pos = str_find_char url CHR ''.'' prefix_end_pos
        in case str_find_char url CHR ''/'' prefix_end_pos of
             None \<Rightarrow> Inl (IOException (Invalid_url_format url))
           | Some slash_pos \<Rightarrow>
               (case (case dot_pos of None \<Rightarrow> None
                      | Some d \<Rightarrow> if d < slash_pos then Some d else None) of
                  Some dot_pos \<Rightarrow>
                    (case str_find_char url CHR ''/'' dot_pos of
                       None \<Rightarrow> Inl (IOException (Invalid_url_format url))
                     | Some container_slash_pos \<Rightarrow>
                         (case str_find_char url CHR ''/'' (container_slash_pos + 1) of
                            None \<Rightarrow> Inl (IOException (Invalid_url_format url))
                          | Some path_slash_pos \<Rightarrow>
                              Inr \<lparr>container =
                                     substr url (container_slash_pos + 1)
                                       (path_slash_pos - container_slash_pos - 1),
                                   storage_account_name =
                                     substr url prefix_end_pos (dot_pos - prefix_end_pos),
                                   endpoint =
                                     substr url (dot_pos + 1) (container_slash_pos - dot_pos - 1),
                                   prefix = substr url 0 prefix_end_pos,
                                   path = substr_from url (path_slash_pos + 1)\<rparr>))
                | None \<Rightarrow>
                    (let container = substr url prefix_end_pos (slash_pos - prefix_end_pos)
                     in if container = [] then Inl (IOException (Invalid_url_format url))
                        else Inr \<lparr>container = container,
                                 storage_account_name = [],
                                 endpoint = [],
                                 prefix = substr url 0 prefix_end_pos,
                                 path = substr_from url (slash_pos + 1)\<rparr>)))"

section \<open>The read engine\<close>

record AzureReadOptions =
  transfer_concurrency :: "32 word"
  transfer_chunk_size :: "64 word"
  buffer_size :: idx_t

text \<open>
  The remote object as the handle sees it through the storage SDK: \<^verbatim>\<open>GetProperties\<close> gives
  the blob size or throws (a \<^verbatim>\<open>StorageException\<close>, or something else), and
  \<^verbatim>\<open>DownloadTo\<close> of a range succeeds or throws a \<^verbatim>\<open>StorageException\<close>.
\<close>

datatype sdk_failure = StorageException | Other_exception

record BlobClient =
  GetProperties :: "sdk_failure + idx_t"
  DownloadTo :: "idx_t \<Rightarrow> idx_t \<Rightarrow> bool"

text \<open>
  \<^verbatim>\<open>AzureStorageFileHandle\<close>. The field \<^verbatim>\<open>length\<close> is \<open>length_hfh\<close> here.
  \<^verbatim>\<open>read_buffer\<close> is a pointer to an array: \<^const>\<open>None\<close> is the null pointer, and
  \<open>Some n\<close> is an array of \<open>n\<close> bytes. The bytes themselves are not modelled: every
  transfer into the array and out of it is recorded in a trace instead.
\<close>

record AzureStorageFileHandle =
  flags :: "8 word"
  length_hfh :: idx_t
  last_modified :: "64 word"
  buffer_available :: idx_t
  buffer_idx :: idx_t
  file_offset :: idx_t
  buffer_start :: idx_t
  buffer_end :: idx_t
  read_buffer :: "idx_t option"
  blob_client :: BlobClient
  read_options :: AzureReadOptions

text \<open>The flag bits are the host engine's \<^verbatim>\<open>FileFlags\<close>.\<close>

definition FILE_FLAGS_READ :: "8 word" where
  "FILE_FLAGS_READ = 1"

definition FILE_FLAGS_DIRECT_IO :: "8 word" where
  "FILE_FLAGS_DIRECT_IO = 4"

text \<open>
  The constructor: one metadata fetch for the length, every read cursor at zero. Both
  \<^verbatim>\<open>catch\<close> clauses rethrow an \<^verbatim>\<open>IOException\<close>. The read buffer is allocated, with
  \<^verbatim>\<open>buffer_size\<close> bytes, only when the handle is opened with \<^verbatim>\<open>FILE_FLAGS_READ\<close>;
  otherwise the pointer stays null.
\<close>

definition new_AzureStorageFileHandle ::
  "8 word \<Rightarrow> BlobClient \<Rightarrow> AzureReadOptions \<Rightarrow> error + AzureStorageFileHandle" where
  "new_AzureStorageFileHandle flags_p client options =
     (case GetProperties client of
        Inl StorageException \<Rightarrow> Inl (IOException Open_failed)
      | Inl Other_exception \<Rightarrow> Inl (IOException Open_failed_unknown)
      | Inr blob_size \<Rightarrow>
          Inr \<lparr>flags = flags_p, length_hfh = blob_size, last_modified = 0,
               buffer_available = 0, buffer_idx = 0, file_offset = 0,
               buffer_start = 0, buffer_end = 0,
               read_buffer = (if flags_p AND FILE_FLAGS_READ \<noteq> 0
                              then Some (buffer_size options) else None),
               blob_client = client, read_options = options\<rparr>)"

text \<open>
  What a read does to the outside: a ranged fetch of \<open>len\<close> bytes at a file offset, into the
  caller's buffer (at an offset) or into the handle's read buffer; and a \<^verbatim>\<open>memcpy\<close> from the
  read buffer into the caller's buffer.
\<close>

datatype destination = Caller_buffer idx_t | Read_buffer

datatype io_event =
    RangeFetch idx_t idx_t destination
  | BufferCopy idx_t idx_t idx_t

text \<open>
  An access to \<open>len\<close> bytes of the read buffer from index \<open>idx\<close> on: the source makes it
  through \<^verbatim>\<open>read_buffer.get()\<close> without a test. It goes wrong when the pointer is null and
  when it leaves the array.
\<close>

definition read_buffer_access ::
  "AzureStorageFileHandle \<Rightarrow> idx_t \<Rightarrow> idx_t \<Rightarrow> error option" where
  "read_buffer_access hfh idx len =
     (case read_buffer hfh of
        None \<Rightarrow> Some NullPointerDereference
      | Some capacity \<Rightarrow>
          if unat idx + unat len \<le> unat capacity then None else Some BufferOverrun)"

text \<open>
  \<^verbatim>\<open>ReadRange(handle, file_offset, buffer_out, buffer_out_len)\<close>. A download that fails
  throws before a byte is stored; one that succeeds stores \<open>buffer_out_len\<close> bytes at
  \<open>buffer_out\<close>, which is the caller's buffer or the start of the read buffer.
\<close>

definition ReadRange ::
  "AzureStorageFileHandle \<Rightarrow> idx_t \<Rightarrow> destination \<Rightarrow> idx_t \<Rightarrow> io_event list
   \<Rightarrow> error + io_event list" where
  "ReadRange afh range_offset buffer_out buffer_out_len trace =
     (if DownloadTo (blob_client afh) range_offset buffer_out_len
      then (case buffer_out of
              Caller_buffer buffer_offset \<Rightarrow>
                Inr (trace @ [RangeFetch range_offset buffer_out_len buffer_out])
            | Read_buffer \<Rightarrow>
                (case read_buffer_access afh 0 buffer_out_len of
                   Some fault \<Rightarrow> Inl fault
                 | None \<Rightarrow> Inr (trace @ [RangeFetch range_offset buffer_out_len buffer_out])))
      else Inl (IOException Read_range_failed))"

text \<open>
  The first half of the body of the copy loop of \<^verbatim>\<open>Read\<close>: copy what the buffer has, at
  most \<open>to_read\<close> bytes, with a \<^verbatim>\<open>memcpy\<close> from \<^verbatim>\<open>read_buffer.get() + buffer_idx\<close>. It
  returns the handle, \<open>to_read\<close>, \<open>buffer_offset\<close> and the trace.
\<close>

definition copy_from_buffer ::
  "AzureStorageFileHandle \<Rightarrow> idx_t \<Rightarrow> idx_t \<Rightarrow> io_event list
   \<Rightarrow> error + AzureStorageFileHandle \<times> idx_t \<times> idx_t \<times> io_event list" where
  "copy_from_buffer hfh to_read buffer_offset trace =
     (let buffer_read_len = min (buffer_available hfh) to_read
      in if 0 < buffer_read_len
         then (case read_buffer_access hfh (buffer_idx hfh) buffer_read_len of
                 Some fault \<Rightarrow> Inl fault
               | None \<Rightarrow>
                   Inr (hfh\<lparr>buffer_idx := buffer_idx hfh + buffer_read_len,
                            buffer_available := buffer_available hfh - buffer_read_len,
                            file_offset := file_offset hfh + buffer_read_len\<rparr>,
                        to_read - buffer_read_len,
                        buffer_offset + buffer_read_len,
                        trace @ [BufferCopy buffer_offset (buffer_idx hfh) buffer_read_len]))
         else Inr (hfh, to_read, buffer_offset, trace))"

lemma copy_from_buffer_cases:
  assumes "copy_from_buffer hfh0 to_read0 buffer_offset0 trace0
           = Inr (hfh, to_read, buffer_offset, trace)"
    and "0 < to_read0"
  shows "if buffer_available hfh0 = 0
         then hfh = hfh0 \<and> to_read = to_read0
         else unat to_read < unat to_read0"
proof (cases "buffer_available hfh0 = 0")
  case True
  with assms show ?thesis
    by (simp add: copy_from_buffer_def)
next
  case False
  define n where "n = min (buffer_available hfh0) to_read0"
  from False assms(2) have pos: "0 < n"
    by (simp add: n_def word_gt_0 min_def)
  have le: "n \<le> to_read0"
    by (simp add: n_def)
  have "to_read = to_read0 - n"
    using assms(1) pos unfolding copy_from_buffer_def Let_def n_def [symmetric]
    by (simp split: option.splits)
  moreover have "unat (to_read0 - n) = unat to_read0 - unat n"
    using le by (rule unat_sub)
  moreover from pos have "0 < unat n"
    by (simp add: word_gt_0 unat_gt_0)
  moreover from le have "unat n \<le> unat to_read0"
    by (simp add: word_le_nat_alt)
  ultimately show ?thesis
    using False by simp
qed

text \<open>
  The copy loop of \<^verbatim>\<open>Read\<close> (\<^verbatim>\<open>while (to_read > 0)\<close>). The bypass branch ends it
  (\<^verbatim>\<open>break\<close>); a failed fetch ends it with the exception, and a faulty access to the read
  buffer ends it too.
\<close>

function Read_loop ::
  "idx_t \<Rightarrow> AzureStorageFileHandle \<Rightarrow> idx_t \<Rightarrow> idx_t \<Rightarrow> io_event list
   \<Rightarrow> error + AzureStorageFileHandle \<times> io_event list" where
  "Read_loop location hfh0 to_read0 buffer_offset0 trace0 =
     (if 0 < to_read0 then
        (case copy_from_buffer hfh0 to_read0 buffer_offset0 trace0 of
           Inl fault \<Rightarrow> Inl fault
         | Inr (hfh, to_read, buffer_offset, trace) \<Rightarrow>
             if 0 < to_read \<and> buffer_available hfh = 0 then
               (let new_buffer_available =
                      min (buffer_size (read_options hfh)) (length_hfh hfh - file_offset hfh)
                in if new_buffer_available < to_read then
                     (case ReadRange hfh (location + buffer_offset)
                             (Caller_buffer buffer_offset) to_read trace of
                        Inl e \<Rightarrow> Inl e
                      | Inr trace' \<Rightarrow>
                          Inr (hfh\<lparr>buffer_available := 0,
                                   buffer_idx := 0,
                                   file_offset := file_offset hfh + to_read\<rparr>, trace'))
                   else
                     (case ReadRange hfh (file_offset hfh) Read_buffer
                             new_buffer_available trace of
                        Inl e \<Rightarrow> Inl e
                      | Inr trace' \<Rightarrow>
                          Read_loop location
                            (hfh\<lparr>buffer_available := new_buffer_available,
                                  buffer_idx := 0,
                                  buffer_start := file_offset hfh,
                                  buffer_end := file_offset hfh + new_buffer_available\<rparr>)
                            to_read buffer_offset trace'))
             else Read_loop location hfh to_read buffer_offset trace)
      else Inr (hfh0, trace0))"
  by pat_completeness auto
termination
proof (relation "measure (\<lambda>(location, hfh, to_read, buffer_offset, trace).
           2 * unat to_read + (if buffer_available hfh = 0 then 1 else 0))", goal_cases)
  case 1
  show ?case by simp
next
  case (2 location hfh0 to_read0 buffer_offset0 trace0 copied hfh y to_read ya
      buffer_offset trace new_buffer_available trace')
  then have c: "copy_from_buffer hfh0 to_read0 buffer_offset0 trace0
                = Inr (hfh, to_read, buffer_offset, trace)"
    by simp
  from 2 have "to_read \<le> new_buffer_available" "0 < to_read"
    by (simp_all add: not_less)
  then have "new_buffer_available \<noteq> 0"
    by auto
  with copy_from_buffer_cases [OF c \<open>0 < to_read0\<close>] show ?case
    by (simp split: if_splits)
next
  case (3 location hfh0 to_read0 buffer_offset0 trace0 copied hfh y to_read ya
      buffer_offset trace)
  then have c: "copy_from_buffer hfh0 to_read0 buffer_offset0 trace0
                = Inr (hfh, to_read, buffer_offset, trace)"
    by simp
  from 3 have n: "\<not> (0 < to_read \<and> buffer_available hfh = 0)"
    by simp
  with copy_from_buffer_cases [OF c \<open>0 < to_read0\<close>] \<open>0 < to_read0\<close> show ?case
    by (auto split: if_splits)
qed

declare Read_loop.simps [simp del]

text \<open>
  \<^verbatim>\<open>Read(handle, buffer, nr_bytes, location)\<close>. \<open>nr_bytes\<close> is an \<^verbatim>\<open>int64_t\<close> that the
  source converts to \<^verbatim>\<open>idx_t\<close> at once: the same 64 bits, read unsigned.
\<close>

definition Read ::
  "AzureStorageFileHandle \<Rightarrow> idx_t \<Rightarrow> idx_t \<Rightarrow> io_event list
   \<Rightarrow> error + AzureStorageFileHandle \<times> io_event list" where
  "Read hfh nr_bytes location trace =
     (let to_read = nr_bytes; buffer_offset = 0
      in if flags hfh AND FILE_FLAGS_DIRECT_IO \<noteq> 0 \<and> 0 < to_read then
           (case ReadRange hfh location (Caller_buffer 0) to_read trace of
              Inl e \<Rightarrow> Inl e
            | Inr trace' \<Rightarrow>
                Inr (hfh\<lparr>buffer_available := 0,
                         buffer_idx := 0,
                         file_offset := location + nr_bytes\<rparr>, trace'))
         else
           Read_loop location
             (if buffer_start hfh \<le> location \<and> location < buffer_end hfh
              then hfh\<lparr>file_offset := location,
                       buffer_idx := location - buffer_start hfh,
                       buffer_available :=
                         (buffer_end hfh - buffer_start hfh) - (location - buffer_start hfh)\<rparr>
              else hfh\<lparr>buffer_available := 0,
                       buffer_idx := 0,
                       file_offset := location\<rparr>)
             to_read buffer_offset trace)"

text \<open>
  \<^verbatim>\<open>Read(handle, buffer, nr_bytes)\<close>, the form that reads at the handle's own offset and
  returns the byte count, and \<^verbatim>\<open>Seek\<close>.
\<close>

definition Read_implicit ::
  "AzureStorageFileHandle \<Rightarrow> idx_t \<Rightarrow> io_event list
   \<Rightarrow> error + idx_t \<times> AzureStorageFileHandle \<times> io_event list" where
  "Read_implicit hfh nr_bytes trace =
     (let max_read = length_hfh hfh - file_offset hfh;
          nr_bytes' = min max_read nr_bytes
      in case Read hfh nr_bytes' (file_offset hfh) trace of
           Inl e \<Rightarrow> Inl e
         | Inr (hfh', trace') \<Rightarrow> Inr (nr_bytes', hfh', trace'))"

definition Seek :: "AzureStorageFileHandle \<Rightarrow> idx_t \<Rightarrow> AzureStorageFileHandle" where
  "Seek sfh location = sfh\<lparr>file_offset := location\<rparr>"

text \<open>
  What the constructor establishes on a handle opened for reading, and what every read keeps:
  the read buffer is an array of \<^verbatim>\<open>buffer_size\<close> bytes, the cursor and the bytes available
  after it lie in the array, and the buffer window is no longer than the array.
\<close>

definition buffer_invariant :: "AzureStorageFileHandle \<Rightarrow> bool" where
  "buffer_invariant hfh =
     (read_buffer hfh = Some (buffer_size (read_options hfh))
      \<and> unat (buffer_idx hfh) + unat (buffer_available hfh)
          \<le> unat (buffer_size (read_options hfh))
      \<and> buffer_end hfh - buffer_start hfh \<le> buffer_size (read_options hfh))"

text \<open>
  A blob of 100 bytes whose every ranged download succeeds, and a readable handle on it with
  a read buffer of 10 bytes, as the constructor leaves it.
\<close>

definition any_range :: "idx_t \<Rightarrow> idx_t \<Rightarrow> bool" where
  "any_range range_offset len = True"

definition blob_100 :: BlobClient where
  "blob_100 = \<lparr>GetProperties = Inr 100, DownloadTo = any_range\<rparr>"

definition handle_100 :: AzureStorageFileHandle where
  "handle_100 =
     \<lparr>flags = 1, length_hfh = 100, last_modified = 0,
      buffer_available = 0, buffer_idx = 0, file_offset = 0,
      buffer_start = 0, buffer_end = 0,
      read_buffer = Some 10,
      blob_client = blob_100,
      read_options = \<lparr>transfer_concurrency = 5, transfer_chunk_size = 1048576,
                      buffer_size = 10\<rparr>\<rparr>"

section \<open>Credential resolution\<close>

text \<open>
  What the host engine hands to the resolver. A secret is a provider tag and a key/value
  bag; a value of the bag may be \<^verbatim>\<open>NULL\<close>.
\<close>

datatype Value = Null | Varchar string

definition IsNull :: "Value \<Rightarrow> bool" where
  "IsNull v = (v = Null)"

definition ToString :: "Value \<Rightarrow> string" where
  "ToString v = (case v of Null \<Rightarrow> ''NULL'' | Varchar s \<Rightarrow> s)"

record KeyValueSecret =
  provider :: string
  secret_map :: "string \<Rightarrow> Value option"

text \<open>
  Modelled from the spec: \<^verbatim>\<open>KeyValueSecret::TryGetValue\<close> is the host engine's. A key that
  is absent gives \<^verbatim>\<open>NULL\<close>, or fails (the spec's \<open>MissingField\<close>) when the caller asked
  for an error on a missing key.
\<close>

definition TryGetValue :: "KeyValueSecret \<Rightarrow> string \<Rightarrow> Value" where
  "TryGetValue secret key = (case secret_map secret key of None \<Rightarrow> Null | Some v \<Rightarrow> v)"

definition TryGetValue_error_on_missing :: "KeyValueSecret \<Rightarrow> string \<Rightarrow> error + Value" where
  "TryGetValue_error_on_missing secret key =
     (case secret_map secret key of
        None \<Rightarrow> Inl (InternalException (Missing_secret_key key))
      | Some v \<Rightarrow> Inr v)"

text \<open>
  The \<^verbatim>\<open>FileOpener\<close>: whether it has a client context, what the secret manager of that
  context finds for a path (secrets of type \<open>azure\<close>), whether it has an HTTP state, and
  the session settings the extension reads (\<^const>\<open>None\<close>: the setting cannot be read).
\<close>

record FileOpener =
  client_context :: bool
  LookupSecret :: "string \<Rightarrow> KeyValueSecret option"
  http_state :: bool
  azure_read_transfer_concurrency :: "32 word option"
  azure_read_transfer_chunk_size :: "64 word option"
  azure_read_buffer_size :: "idx_t option"
  azure_context_caching :: "bool option"
  azure_http_stats :: "bool option"
  azure_transport_option_type :: "string option"
  azure_http_proxy :: "string option"
  azure_proxy_user_name :: "string option"
  azure_proxy_password :: "string option"
  azure_storage_connection_string :: "string option"
  azure_endpoint :: "string option"
  azure_account_name :: "string option"
  azure_credential_chain :: "string option"

text \<open>The process environment that the transport set-up reads.\<close>

record Process =
  getenv :: "string \<Rightarrow> string option"
  fopen_r :: "string \<Rightarrow> bool"
  probes_ca_files :: bool

text \<open>The objects of the storage SDK that the resolver builds, as what they were built from.\<close>

record CurlTransportOptions =
  Proxy :: "string option"
  ProxyUsername :: "string option"
  curl_ProxyPassword :: "string option"
  CAInfo :: "string option"
  CAPath :: "string option"

record TransportOptions =
  HttpProxy :: "string option"
  ProxyUserName :: "string option"
  ProxyPassword :: "string option"
  Transport :: "CurlTransportOptions option"

datatype TokenCredential =
    AzureCliCredential TransportOptions
  | ManagedIdentityCredential TransportOptions
  | EnvironmentCredential TransportOptions
  | DefaultAzureCredential TransportOptions
  | ChainedTokenCredential "TokenCredential list"
  | ClientSecretCredential string string string TransportOptions
  | ClientCertificateCredential string string string TransportOptions

datatype policy = HttpStatePolicy

record BlobClientOptions =
  options_Transport :: TransportOptions
  PerOperationPolicies :: "policy list"

datatype BlobServiceClient =
    CreateFromConnectionString string BlobClientOptions
  | BlobServiceClient_anonymous string BlobClientOptions
  | BlobServiceClient_credential string TokenCredential BlobClientOptions

definition DEFAULT_ENDPOINT :: string where
  "DEFAULT_ENDPOINT = ''blob.core.windows.net''"

definition TryGetCurrentSetting :: "string option \<Rightarrow> string" where
  "TryGetCurrentSetting setting = (case setting of None \<Rightarrow> [] | Some val \<Rightarrow> val)"

text \<open>
  \<^verbatim>\<open>connection_string.compare(pos + 12, n, account)\<close> compares the (at most) \<open>n\<close>
  characters from \<open>pos + 12\<close> with \<open>account\<close>.
\<close>

definition ConnectionStringMatchStorageAccountName :: "string \<Rightarrow> string \<Rightarrow> error + bool" where
  "ConnectionStringMatchStorageAccountName connection_string provided_storage_account =
     (if provided_storage_account = [] then Inr True
      else case str_find connection_string ''AccountName='' 0 of
             None \<Rightarrow> Inl (InvalidInputException Invalid_connection_string)
           | Some storage_account_name_pos \<Rightarrow>
               Inr (substr connection_string (storage_account_name_pos + 12)
                      (length provided_storage_account) = provided_storage_account))"

definition KVSEndpoint :: "KeyValueSecret \<Rightarrow> string \<Rightarrow> string" where
  "KVSEndpoint secret provided_endpoint =
     (if provided_endpoint = [] then
        (let endpoint_value = TryGetValue secret ''endpoint''
         in if IsNull endpoint_value then DEFAULT_ENDPOINT else ToString endpoint_value)
      else provided_endpoint)"

definition KVSStorageAccount :: "KeyValueSecret \<Rightarrow> string \<Rightarrow> error + string" where
  "KVSStorageAccount secret provided_storage_account =
     (if provided_storage_account = [] then
        (case TryGetValue_error_on_missing secret ''account_name'' of
           Inl e \<Rightarrow> Inl e
         | Inr v \<Rightarrow> Inr (ToString v))
      else Inr provided_storage_account)"

definition AccountUrl :: "KeyValueSecret \<Rightarrow> string \<Rightarrow> string \<Rightarrow> error + string" where
  "AccountUrl secret provided_storage_account provided_endpoint =
     (case KVSStorageAccount secret provided_storage_account of
        Inl e \<Rightarrow> Inl e
      | Inr account \<Rightarrow> Inr (''https://'' @ account @ ''.'' @ KVSEndpoint secret provided_endpoint))"

definition ToBlobClientOptions :: "TransportOptions \<Rightarrow> bool \<Rightarrow> BlobClientOptions" where
  "ToBlobClientOptions transport_options has_http_state =
     \<lparr>options_Transport = transport_options,
      PerOperationPolicies = (if has_http_state then [HttpStatePolicy] else [])\<rparr>"

definition GetHttpState :: "FileOpener \<Rightarrow> bool" where
  "GetHttpState opener =
     (let enable_http_stats = (case azure_http_stats opener of None \<Rightarrow> False | Some v \<Rightarrow> v)
      in if enable_http_stats then http_state opener else False)"

fun chain_sources :: "string list \<Rightarrow> TransportOptions \<Rightarrow> error + TokenCredential list" where
  "chain_sources [] credential_options = Inr []"
| "chain_sources (item # chain_list) credential_options =
     (case (if item = ''cli'' then Inr (AzureCliCredential credential_options)
            else if item = ''managed_identity''
              then Inr (ManagedIdentityCredential credential_options)
            else if item = ''env'' then Inr (EnvironmentCredential credential_options)
            else if item = ''default'' then Inr (DefaultAzureCredential credential_options)
            else Inl (InvalidInputException (Unknown_credential_provider item))) of
        Inl e \<Rightarrow> Inl e
      | Inr source \<Rightarrow>
          (case chain_sources chain_list credential_options of
             Inl e \<Rightarrow> Inl e
           | Inr sources \<Rightarrow> Inr (source # sources)))"

definition CreateChainedTokenCredential ::
  "string \<Rightarrow> TransportOptions \<Rightarrow> error + TokenCredential" where
  "CreateChainedTokenCredential chain transport_options =
     (case chain_sources (StringUtil_Split_lines chain CHR '';'') transport_options of
        Inl e \<Rightarrow> Inl e
      | Inr sources \<Rightarrow> Inr (ChainedTokenCredential sources))"

definition CreateClientCredential ::
  "string \<Rightarrow> string \<Rightarrow> string \<Rightarrow> string \<Rightarrow> TransportOptions \<Rightarrow> error + TokenCredential" where
  "CreateClientCredential tenant_id client_id client_secret client_certificate_path
       transport_options =
     (if client_secret \<noteq> [] then
        Inr (ClientSecretCredential tenant_id client_id client_secret transport_options)
      else if client_certificate_path \<noteq> [] then
        Inr (ClientCertificateCredential tenant_id client_id client_certificate_path
               transport_options)
      else Inl (InvalidInputException Missing_client_secret_or_certificate))"

definition non_empty :: "string \<Rightarrow> string option" where
  "non_empty s = (if s = [] then None else Some s)"

definition ca_bundle_paths :: "string list" where
  "ca_bundle_paths =
     [''/etc/ssl/certs/ca-certificates.crt'',
      ''/etc/pki/tls/certs/ca-bundle.crt'',
      ''/etc/ssl/ca-bundle.pem'',
      ''/etc/pki/tls/cacert.pem'',
      ''/etc/pki/ca-trust/extracted/pem/tls-ca-bundle.pem'',
      ''/etc/ssl/cert.pem'']"

definition CreateCurlTransport ::
  "Process \<Rightarrow> string \<Rightarrow> string \<Rightarrow> string \<Rightarrow> CurlTransportOptions" where
  "CreateCurlTransport env proxy proxy_username proxy_password =
     (let ca_info = getenv env ''CURL_CA_INFO'';
          ca_info = (if probes_ca_files env \<and> ca_info = None
                     then List.find (fopen_r env) ca_bundle_paths else ca_info)
      in \<lparr>Proxy = non_empty proxy,
          ProxyUsername = non_empty proxy_username,
          curl_ProxyPassword = non_empty proxy_password,
          CAInfo = ca_info,
          CAPath = getenv env ''CURL_CA_PATH''\<rparr>)"

text \<open>The three overloads of \<^verbatim>\<open>GetTransportOptions\<close>.\<close>

definition GetTransportOptions ::
  "Process \<Rightarrow> string \<Rightarrow> string \<Rightarrow> string \<Rightarrow> string \<Rightarrow> error + TransportOptions" where
  "GetTransportOptions env transport_option_type proxy proxy_username proxy_password =
     (if transport_option_type = ''default'' then
        Inr \<lparr>HttpProxy = non_empty proxy,
             ProxyUserName = non_empty proxy_username,
             ProxyPassword = non_empty proxy_password,
             Transport = None\<rparr>
      else if transport_option_type = ''curl'' then
        Inr \<lparr>HttpProxy = None, ProxyUserName = None, ProxyPassword = None,
             Transport = Some (CreateCurlTransport env proxy proxy_username proxy_password)\<rparr>
      else Inl (InvalidInputException (Bad_transport_option_type transport_option_type)))"

definition GetTransportOptions_secret ::
  "Process \<Rightarrow> FileOpener \<Rightarrow> KeyValueSecret \<Rightarrow> error + TransportOptions" where
  "GetTransportOptions_secret env opener secret =
     (let transport_option_type = TryGetCurrentSetting (azure_transport_option_type opener);
          http_proxy_val = TryGetValue secret ''http_proxy'';
          http_proxy =
            (if \<not> IsNull http_proxy_val then ToString http_proxy_val
             else case getenv env ''HTTP_PROXY'' of None \<Rightarrow> [] | Some http_proxy_env \<Rightarrow> http_proxy_env);
          http_proxy_username_val = TryGetValue secret ''proxy_user_name'';
          http_proxy_username =
            (if \<not> IsNull http_proxy_username_val then ToString http_proxy_username_val else []);
          http_proxy_password_val = TryGetValue secret ''proxy_password'';
          http_proxy_password =
            (if \<not> IsNull http_proxy_password_val then ToString http_proxy_password_val else [])
      in GetTransportOptions env transport_option_type http_proxy http_proxy_username
           http_proxy_password)"

definition GetTransportOptions_opener :: "Process \<Rightarrow> FileOpener \<Rightarrow> error + TransportOptions" where
  "GetTransportOptions_opener env opener =
     GetTransportOptions env
       (TryGetCurrentSetting (azure_transport_option_type opener))
       (TryGetCurrentSetting (azure_http_proxy opener))
       (TryGetCurrentSetting (azure_proxy_user_name opener))
       (TryGetCurrentSetting (azure_proxy_password opener))"

definition GetStorageAccountClientFromConfigProvider ::
  "Process \<Rightarrow> FileOpener \<Rightarrow> KeyValueSecret \<Rightarrow> string \<Rightarrow> string \<Rightarrow> error + BlobServiceClient" where
  "GetStorageAccountClientFromConfigProvider env opener secret provided_storage_account
       provided_endpoint =
     (case GetTransportOptions_secret env opener secret of
        Inl e \<Rightarrow> Inl e
      | Inr transport_options \<Rightarrow>
          (let connection_string_val = TryGetValue secret ''connection_string''
           in if \<not> IsNull connection_string_val then
                (let connection_string = ToString connection_string_val
                 in case ConnectionStringMatchStorageAccountName connection_string
                           provided_storage_account of
                      Inl e \<Rightarrow> Inl e
                    | Inr matches \<Rightarrow>
                        if \<not> matches then
                          Inl (InvalidInputException
                                 (Connection_string_mismatch provided_storage_account))
                        else
                          Inr (CreateFromConnectionString connection_string
                                 (ToBlobClientOptions transport_options (GetHttpState opener))))
              else
                (case AccountUrl secret provided_storage_account provided_endpoint of
                   Inl e \<Rightarrow> Inl e
                 | Inr account_url \<Rightarrow>
                     Inr (BlobServiceClient_anonymous account_url
                            (ToBlobClientOptions transport_options (GetHttpState opener))))))"

definition GetStorageAccountClientFromCredentialChainProvider ::
  "Process \<Rightarrow> FileOpener \<Rightarrow> KeyValueSecret \<Rightarrow> string \<Rightarrow> string \<Rightarrow> error + BlobServiceClient" where
  "GetStorageAccountClientFromCredentialChainProvider env opener secret
       provided_storage_account provided_endpoint =
     (case GetTransportOptions_secret env opener secret of
        Inl e \<Rightarrow> Inl e
      | Inr transport_options \<Rightarrow>
          (let chain_value = TryGetValue secret ''chain'';
               chain = (if \<not> IsNull chain_value then ToString chain_value else ''default'')
           in case CreateChainedTokenCredential chain transport_options of
                Inl e \<Rightarrow> Inl e
              | Inr credential \<Rightarrow>
                  (case AccountUrl secret provided_storage_account provided_endpoint of
                     Inl e \<Rightarrow> Inl e
                   | Inr account_url \<Rightarrow>
                       Inr (BlobServiceClient_credential account_url credential
                              (ToBlobClientOptions transport_options (GetHttpState opener))))))"

definition GetStorageAccountClientFromServicePrincipalProvider ::
  "Process \<Rightarrow> FileOpener \<Rightarrow> KeyValueSecret \<Rightarrow> string \<Rightarrow> string \<Rightarrow> error + BlobServiceClient" where
  "GetStorageAccountClientFromServicePrincipalProvider env opener secret
       provided_storage_account provided_endpoint =
     (case GetTransportOptions_secret env opener secret of
        Inl e \<Rightarrow> Inl e
      | Inr transport_options \<Rightarrow>
     (case TryGetValue_error_on_missing secret ''tenant_id'' of
        Inl e \<Rightarrow> Inl e
      | Inr tenant_id \<Rightarrow>
     (case TryGetValue_error_on_missing secret ''client_id'' of
        Inl e \<Rightarrow> Inl e
      | Inr client_id \<Rightarrow>
          (let client_secret_val = TryGetValue secret ''client_secret'';
               client_certificate_path_val = TryGetValue secret ''client_certificate_path'';
               client_secret =
                 (if IsNull client_secret_val then [] else ToString client_secret_val);
               client_certificate_path =
                 (if IsNull client_certificate_path_val then []
                  else ToString client_certificate_path_val)
           in case CreateClientCredential (ToString tenant_id) (ToString client_id)
                     client_secret client_certificate_path transport_options of
                Inl e \<Rightarrow> Inl e
              | Inr token_credential \<Rightarrow>
                  (case AccountUrl secret provided_storage_account provided_endpoint of
                     Inl e \<Rightarrow> Inl e
                   | Inr account_url \<Rightarrow>
                       Inr (BlobServiceClient_credential account_url token_credential
                              (ToBlobClientOptions transport_options
                                 (GetHttpState opener))))))))"

definition GetStorageAccountClient_secret ::
  "Process \<Rightarrow> FileOpener \<Rightarrow> KeyValueSecret \<Rightarrow> string \<Rightarrow> string \<Rightarrow> error + BlobServiceClient" where
  "GetStorageAccountClient_secret env opener secret provided_storage_account provided_endpoint =
     (if provider secret = ''config'' then
        GetStorageAccountClientFromConfigProvider env opener secret provided_storage_account
          provided_endpoint
      else if provider secret = ''credential_chain'' then
        GetStorageAccountClientFromCredentialChainProvider env opener secret
          provided_storage_account provided_endpoint
      else if provider secret = ''service_principal'' then
        GetStorageAccountClientFromServicePrincipalProvider env opener secret
          provided_storage_account provided_endpoint
      else Inl (InvalidInputException (Unsupported_provider (provider secret))))"

definition GetStorageAccountClient ::
  "Process \<Rightarrow> FileOpener \<Rightarrow> string \<Rightarrow> string \<Rightarrow> error + BlobServiceClient" where
  "GetStorageAccountClient env opener provided_storage_account provided_endpoint =
     (case GetTransportOptions_opener env opener of
        Inl e \<Rightarrow> Inl e
      | Inr transport_options \<Rightarrow>
          (let blob_options = ToBlobClientOptions transport_options (GetHttpState opener);
               connection_string =
                 TryGetCurrentSetting (azure_storage_connection_string opener)
           in case (if connection_string \<noteq> []
                    then ConnectionStringMatchStorageAccountName connection_string
                           provided_storage_account
                    else Inr False) of
                Inl e \<Rightarrow> Inl e
              | Inr use_connection_string \<Rightarrow>
                  if use_connection_string then
                    Inr (CreateFromConnectionString connection_string blob_options)
                  else
                    (let endpoint =
                           (if provided_endpoint = [] then
                              (let endpoint = TryGetCurrentSetting (azure_endpoint opener)
                               in if endpoint = [] then DEFAULT_ENDPOINT else endpoint)
                            else provided_endpoint);
                         azure_account_name =
                           (if provided_storage_account = []
                            then TryGetCurrentSetting (azure_account_name opener)
                            else provided_storage_account)
                     in if azure_account_name = [] then
                          Inl (InvalidInputException No_valid_credentials)
                        else
                          (let account_url = ''https://'' @ azure_account_name @ ''.'' @ endpoint;
                               credential_chain =
                                 TryGetCurrentSetting (azure_credential_chain opener)
                           in if credential_chain \<noteq> [] then
                                (case CreateChainedTokenCredential credential_chain
                                        transport_options of
                                   Inl e \<Rightarrow> Inl e
                                 | Inr credential \<Rightarrow>
                                     Inr (BlobServiceClient_credential account_url credential
                                            blob_options))
                              else Inr (BlobServiceClient_anonymous account_url blob_options)))))"

definition ConnectToStorageAccount ::
  "Process \<Rightarrow> FileOpener \<Rightarrow> string \<Rightarrow> AzureParsedUrl \<Rightarrow> error + BlobServiceClient" where
  "ConnectToStorageAccount env opener url azure_parsed_url =
     (case (if client_context opener then LookupSecret opener url else None) of
        Some base_secret \<Rightarrow>
          GetStorageAccountClient_secret env opener base_secret
            (storage_account_name azure_parsed_url) (endpoint azure_parsed_url)
      | None \<Rightarrow>
          GetStorageAccountClient env opener
            (storage_account_name azure_parsed_url) (endpoint azure_parsed_url))"

text \<open>
  The connection string as the spec speaks of it: the account name it embeds, that is the
  text after the first \<open>AccountName=\<close> up to the next semicolon.
\<close>

definition embedded_account_name :: "string \<Rightarrow> string option" where
  "embedded_account_name connection_string =
     (case str_find connection_string ''AccountName='' 0 of
        None \<Rightarrow> None
      | Some pos \<Rightarrow>
          Some (takeWhile (\<lambda>c. c \<noteq> CHR '';'') (drop (pos + 12) connection_string)))"

text \<open>
  Concrete surroundings for the examples: a process with no environment variable and no CA
  file, an opener with the extension's default settings and no secret, a \<open>config\<close> secret
  and a session setting that carry a connection string for the account \<open>other\<close>, and a
  \<open>service_principal\<close> secret with tenant and client id only.
\<close>

definition no_process_env :: Process where
  "no_process_env = \<lparr>getenv = (\<lambda>name. None), fopen_r = (\<lambda>name. False), probes_ca_files = True\<rparr>"

definition no_secret :: "string \<Rightarrow> KeyValueSecret option" where
  "no_secret url = None"

definition default_opener :: FileOpener where
  "default_opener =
     \<lparr>client_context = True, LookupSecret = no_secret, http_state = False,
      azure_read_transfer_concurrency = Some 5,
      azure_read_transfer_chunk_size = Some 1048576,
      azure_read_buffer_size = Some 1048576,
      azure_context_caching = Some True,
      azure_http_stats = Some False,
      azure_transport_option_type = Some ''default'',
      azure_http_proxy = Some [],
      azure_proxy_user_name = Some [],
      azure_proxy_password = Some [],
      azure_storage_connection_string = Some [],
      azure_endpoint = Some [],
      azure_account_name = Some [],
      azure_credential_chain = Some []\<rparr>"

definition cs_other :: string where
  "cs_other = ''AccountName=other;AccountKey=k''"

definition config_secret_other :: KeyValueSecret where
  "config_secret_other =
     \<lparr>provider = ''config'',
      secret_map = [''connection_string'' \<mapsto> Varchar cs_other]\<rparr>"

definition opener_cs_other :: FileOpener where
  "opener_cs_other = default_opener\<lparr>azure_storage_connection_string := Some cs_other\<rparr>"

definition default_transport :: TransportOptions where
  "default_transport =
     \<lparr>HttpProxy = None, ProxyUserName = None, ProxyPassword = None, Transport = None\<rparr>"

definition principal_secret :: KeyValueSecret where
  "principal_secret =
     \<lparr>provider = ''service_principal'',
      secret_map = [''tenant_id'' \<mapsto> Varchar ''t1'', ''client_id'' \<mapsto> Varchar ''c1'',
                    ''account_name'' \<mapsto> Varchar ''acct'']\<rparr>"

section \<open>The context cache\<close>

text \<open>
  \<^verbatim>\<open>AzureContextState\<close>: the service client, the read options it was built with (the
  source's field \<^verbatim>\<open>read_options\<close>) and the flag that the session-end event clears.
\<close>

record AzureContextState =
  ctx_read_options :: AzureReadOptions
  service_client :: BlobServiceClient
  is_valid :: bool

definition new_AzureContextState :: "BlobServiceClient \<Rightarrow> AzureReadOptions \<Rightarrow> AzureContextState" where
  "new_AzureContextState client azure_read_options =
     \<lparr>ctx_read_options = azure_read_options, service_client = client, is_valid = True\<rparr>"

definition IsValid :: "AzureContextState \<Rightarrow> bool" where
  "IsValid ctx = is_valid ctx"

definition QueryEnd :: "AzureContextState \<Rightarrow> AzureContextState" where
  "QueryEnd ctx = ctx\<lparr>is_valid := False\<rparr>"

definition ParseAzureReadOptions :: "FileOpener \<Rightarrow> AzureReadOptions" where
  "ParseAzureReadOptions opener =
     \<lparr>transfer_concurrency =
        (case azure_read_transfer_concurrency opener of None \<Rightarrow> 5 | Some v \<Rightarrow> v),
      transfer_chunk_size =
        (case azure_read_transfer_chunk_size opener of None \<Rightarrow> 1 * 1024 * 1024 | Some v \<Rightarrow> v),
      buffer_size =
        (case azure_read_buffer_size opener of None \<Rightarrow> 1 * 1024 * 1024 | Some v \<Rightarrow> v)\<rparr>"

text \<open>
  Context objects are shared (\<^verbatim>\<open>std::shared_ptr\<close>), and what matters is their identity:
  an object lives at a reference in a store, \<^verbatim>\<open>std::make_shared\<close> takes the next unused
  reference, and \<^verbatim>\<open>registered_state\<close> of the client context maps account names to
  references. The map is kept as an association list, so that the session-end event can visit
  its entries.
\<close>

type_synonym ref = nat

record Session =
  objects :: "ref \<Rightarrow> AzureContextState option"
  fresh :: ref
  registered_state :: "(string \<times> ref) list"

definition make_shared :: "AzureContextState \<Rightarrow> Session \<Rightarrow> ref \<times> Session" where
  "make_shared ctx st =
     (fresh st, st\<lparr>objects := (objects st)(fresh st \<mapsto> ctx), fresh := Suc (fresh st)\<rparr>)"

definition CreateStorageContext ::
  "Process \<Rightarrow> FileOpener \<Rightarrow> string \<Rightarrow> AzureParsedUrl \<Rightarrow> Session \<Rightarrow> error + ref \<times> Session" where
  "CreateStorageContext env opener url parsed_url st =
     (let azure_read_options = ParseAzureReadOptions opener
      in case ConnectToStorageAccount env opener url parsed_url of
           Inl e \<Rightarrow> Inl e
         | Inr client \<Rightarrow> Inr (make_shared (new_AzureContextState client azure_read_options) st))"

text \<open>
  \<^verbatim>\<open>GetOrCreateStorageContext\<close>. With caching, the source dereferences the client context
  without a test. \<^verbatim>\<open>registered_state.insert\<close> adds a key that is absent;
  \<^verbatim>\<open>registered_state[key] = result\<close> replaces the entry.
\<close>

definition GetOrCreateStorageContext ::
  "Process \<Rightarrow> FileOpener \<Rightarrow> string \<Rightarrow> AzureParsedUrl \<Rightarrow> Session \<Rightarrow> error + ref \<times> Session" where
  "GetOrCreateStorageContext env opener url parsed_url st =
     (let azure_context_caching =
            (case azure_context_caching opener of None \<Rightarrow> True | Some v \<Rightarrow> v)
      in if azure_context_caching then
           (if \<not> client_context opener then Inl NullPointerDereference
            else case map_of (registered_state st) (storage_account_name parsed_url) of
                   None \<Rightarrow>
                     (case CreateStorageContext env opener url parsed_url st of
                        Inl e \<Rightarrow> Inl e
                      | Inr (result, st') \<Rightarrow>
                          Inr (result,
                               st'\<lparr>registered_state :=
                                     registered_state st'
                                     @ [(storage_account_name parsed_url, result)]\<rparr>))
                 | Some cached \<Rightarrow>
                     (case objects st cached of
                        None \<Rightarrow> Inl NullPointerDereference
                      | Some azure_context_state \<Rightarrow>
                          if \<not> IsValid azure_context_state then
                            (case CreateStorageContext env opener url parsed_url st of
                               Inl e \<Rightarrow> Inl e
                             | Inr (result, st') \<Rightarrow>
                                 Inr (result,
                                      st'\<lparr>registered_state :=
                                            AList.update (storage_account_name parsed_url) result
                                              (registered_state st')\<rparr>))
                          else Inr (cached, st)))
         else CreateStorageContext env opener url parsed_url st)"

text \<open>
  Modelled from the spec: the session-end event belongs to the host engine, which calls
  \<^verbatim>\<open>QueryEnd\<close> on every state registered in the client context.
\<close>

definition session_end :: "Session \<Rightarrow> Session" where
  "session_end st =
     st\<lparr>objects :=
          (\<lambda>r. if r \<in> snd ` set (registered_state st)
               then map_option QueryEnd (objects st r) else objects st r)\<rparr>"

definition new_session :: Session where
  "new_session = \<lparr>objects = (\<lambda>r. None), fresh = 0, registered_state = []\<rparr>"

text \<open>The caching setting is on unless it is set to false.\<close>

definition caches :: "FileOpener \<Rightarrow> bool" where
  "caches opener = (azure_context_caching opener \<noteq> Some False)"

text \<open>Every registered reference has been handed out by \<^const>\<open>make_shared\<close>.\<close>

definition session_ok :: "Session \<Rightarrow> bool" where
  "session_ok st = list_all (\<lambda>(k, r). r < fresh st) (registered_state st)"

text \<open>
  An example: the first lookup for the account \<open>acct\<close> in a new session, with the default
  settings, builds an anonymous client and leaves the session \<open>session_acct\<close>.
\<close>

definition url_acct :: string where
  "url_acct = ''azure://acct.blob.core.windows.net/container/file.csv''"

definition parsed_acct :: AzureParsedUrl where
  "parsed_acct =
     \<lparr>container = ''container'', storage_account_name = ''acct'',
      endpoint = ''blob.core.windows.net'', prefix = ''azure://'', path = ''file.csv''\<rparr>"

definition client_acct :: BlobServiceClient where
  "client_acct =
     BlobServiceClient_anonymous ''https://acct.blob.core.windows.net''
       \<lparr>options_Transport = default_transport, PerOperationPolicies = []\<rparr>"

definition context_acct :: AzureContextState where
  "context_acct =
     \<lparr>ctx_read_options =
        \<lparr>transfer_concurrency = 5, transfer_chunk_size = 1048576, buffer_size = 1048576\<rparr>,
      service_client = client_acct, is_valid = True\<rparr>"

definition session_acct :: Session where
  "session_acct =
     \<lparr>objects = [0 \<mapsto> context_acct], fresh = 1, registered_state = [(''acct'', 0)]\<rparr>"

definition lookup_summary ::
  "error + ref \<times> Session \<Rightarrow> (ref \<times> (string \<times> ref) list \<times> ref \<times> bool option) option" where
  "lookup_summary result =
     (case result of
        Inl e \<Rightarrow> None
      | Inr (r, st) \<Rightarrow>
          Some (r, registered_state st, fresh st, map_option is_valid (objects st 0)))"

section \<open>The glob driver\<close>

text \<open>
  The listing interface of the storage SDK: a container client answers a listing request (a
  prefix and, after the first page, a continuation token) with one page of blob names and
  the token of the next page if there is one, or throws a \<^verbatim>\<open>StorageException\<close>
  (\<^const>\<open>None\<close>). The remote service gives a container client for a service client and
  a container name.
\<close>

record ListBlobsOptions =
  Prefix :: string
  ContinuationToken :: "string option"

record ListBlobsPagedResponse =
  Blobs :: "string list"
  NextPageToken :: "string option"

type_synonym BlobContainerClient = "ListBlobsOptions \<Rightarrow> ListBlobsPagedResponse option"

type_synonym storage_service = "BlobServiceClient \<Rightarrow> string \<Rightarrow> BlobContainerClient"

text \<open>
  The \<^verbatim>\<open>for\<close> loop over one page: the keys that match the pattern, each as a full URL,
  in the order of the page.
\<close>

definition matching_urls :: "string \<Rightarrow> string list \<Rightarrow> string list \<Rightarrow> string list" where
  "matching_urls path_result_prefix pattern_splits blobs =
     map (\<lambda>key. path_result_prefix @ ''/'' @ key)
       (filter (\<lambda>key. Match (StringUtil_Split key CHR ''/'') pattern_splits) blobs)"

text \<open>
  The \<^verbatim>\<open>while (true)\<close> loop of \<^verbatim>\<open>Glob\<close>. It ends when a page carries no token or a
  listing call throws, and runs forever against a service that never stops handing out
  tokens: its value is then \<^const>\<open>None\<close>. Together with the result it returns the listing
  calls it has issued.
\<close>

partial_function (option) Glob_pages ::
  "BlobContainerClient \<Rightarrow> string \<Rightarrow> string list \<Rightarrow> string \<Rightarrow> ListBlobsOptions
   \<Rightarrow> string list \<Rightarrow> ListBlobsOptions list
   \<Rightarrow> (error + string list \<times> ListBlobsOptions list) option" where
  "Glob_pages container_client url pattern_splits path_result_prefix options result calls =
     (case container_client options of
        None \<Rightarrow> Some (Inl (IOException (List_blobs_failed url)))
      | Some res \<Rightarrow>
          (case NextPageToken res of
             Some token \<Rightarrow>
               Glob_pages container_client url pattern_splits path_result_prefix
                 (options\<lparr>ContinuationToken := Some token\<rparr>)
                 (result @ matching_urls path_result_prefix pattern_splits (Blobs res))
                 (calls @ [options])
           | None \<Rightarrow>
               Some (Inr (result @ matching_urls path_result_prefix pattern_splits (Blobs res),
                          calls @ [options]))))"

text \<open>
  \<^verbatim>\<open>AzureStorageFileSystem::Glob\<close>. \<open>wildcards\<close> is the argument of
  \<^verbatim>\<open>find_first_of\<close>: the asterisk, the opening bracket and the backslash.
  \<open>path_result_prefix_of\<close> is the local \<^verbatim>\<open>path_result_prefix\<close>.
\<close>

definition wildcards :: string where
  "wildcards = [CHR ''*'', CHR ''['', CHR 0x5C]"

definition path_result_prefix_of :: "AzureParsedUrl \<Rightarrow> string" where
  "path_result_prefix_of azure_url =
     (if storage_account_name azure_url = [] then prefix azure_url @ container azure_url
      else prefix azure_url @ storage_account_name azure_url @ ''.'' @ endpoint azure_url
           @ ''/'' @ container azure_url)"

definition Glob ::
  "Process \<Rightarrow> storage_service \<Rightarrow> string \<Rightarrow> FileOpener option \<Rightarrow> Session
   \<Rightarrow> (error + string list \<times> ListBlobsOptions list \<times> Session) option" where
  "Glob env service url opener_p st =
     (case opener_p of
        None \<Rightarrow> Some (Inl (InternalException No_file_opener))
      | Some opener \<Rightarrow>
     (case ParseUrl url of
        Inl e \<Rightarrow> Some (Inl e)
      | Inr azure_url \<Rightarrow>
     (case GetOrCreateStorageContext env opener url azure_url st of
        Inl e \<Rightarrow> Some (Inl e)
      | Inr (storage_context, st') \<Rightarrow>
     (case find_first_of (path azure_url) wildcards of
        None \<Rightarrow> Some (Inr ([url], [], st'))
      | Some first_wildcard_pos \<Rightarrow>
     (case objects st' storage_context of
        None \<Rightarrow> Some (Inl NullPointerDereference)
      | Some ctx \<Rightarrow>
          (let shared_path = substr (path azure_url) 0 first_wildcard_pos;
               container_client = service (service_client ctx) (container azure_url);
               pattern_splits = StringUtil_Split (path azure_url) CHR ''/'';
               options = \<lparr>Prefix = shared_path, ContinuationToken = None\<rparr>
           in case Glob_pages container_client url pattern_splits
                     (path_result_prefix_of azure_url) options [] [] of
                None \<Rightarrow> None
              | Some (Inl e) \<Rightarrow> Some (Inl e)
              | Some (Inr (result, calls)) \<Rightarrow> Some (Inr (result, calls, st'))))))))"

text \<open>
  A container whose listing is a fixed sequence of pages: page \<open>i\<close> is served for the token
  of page \<open>i\<close> (no token for the first page) and carries the token of page \<open>i + 1\<close> unless it
  is the last; any other request fails.
\<close>

definition page_token :: "nat \<Rightarrow> string option" where
  "page_token i = (if i = 0 then None else Some (replicate i CHR ''+''))"

definition paged_container :: "string list list \<Rightarrow> BlobContainerClient" where
  "paged_container pages options =
     (let i = (case ContinuationToken options of None \<Rightarrow> 0 | Some token \<Rightarrow> length token)
      in if i < length pages
         then Some \<lparr>Blobs = pages ! i,
                    NextPageToken = (if Suc i < length pages then page_token (Suc i) else None)\<rparr>
         else None)"

text \<open>
  The scenario of the spec: a service that lists three keys on one page, and the session that
  a first lookup for the account \<open>acct\<close> at the endpoint \<open>ep\<close> leaves.
\<close>

definition url_csv :: string where
  "url_csv = ''azure://acct.ep/container/data/**/*.csv''"

definition csv_service :: storage_service where
  "csv_service client container_name =
     paged_container [[''data/a/x.csv'', ''data/a/x.parquet'', ''data/b/c/y.csv'']]"

definition glob_summary ::
  "(error + string list \<times> ListBlobsOptions list \<times> Session) option
   \<Rightarrow> (error + string list \<times> ListBlobsOptions list) option" where
  "glob_summary outcome =
     (case outcome of
        None \<Rightarrow> None
      | Some (Inl e) \<Rightarrow> Some (Inl e)
      | Some (Inr (result, calls, st)) \<Rightarrow> Some (Inr (result, calls)))"

definition client_ep :: BlobServiceClient where
  "client_ep =
     BlobServiceClient_anonymous ''https://acct.ep''
       \<lparr>options_Transport = default_transport, PerOperationPolicies = []\<rparr>"

definition session_ep :: Session where
  "session_ep =
     \<lparr>objects =
        [0 \<mapsto> \<lparr>ctx_read_options =
                   \<lparr>transfer_concurrency = 5, transfer_chunk_size = 1048576,
                    buffer_size = 1048576\<rparr>,
                 service_client = client_ep, is_valid = True\<rparr>],
      fresh = 1, registered_state = [(''acct'', 0)]\<rparr>"

definition question_service :: storage_service where
  "question_service client container_name = paged_container [[''ab'']]"

section \<open>Properties of the glob matcher\<close>

lemma Match_suffixes_iff:
  "Match_suffixes key pattern = (\<exists>n<length key. Match (drop n key) pattern)"
  by (induction key) (simp_all add: Ex_less_Suc2)

lemma Match_star_star:
  assumes "pattern \<noteq> []"
  shows "Match key (''**'' # pattern) = (\<exists>n. n \<le> length key \<and> Match (drop n key) pattern)"
proof (cases key)
  case Nil
  with assms show ?thesis by simp
next
  case (Cons k ks)
  have "Match key (''**'' # pattern) = (\<exists>n<length key. Match (drop n key) pattern)"
    using assms Cons by (simp add: Match_suffixes_iff del: Match_suffixes.simps)
  also have "\<dots> = (\<exists>n. n \<le> length key \<and> Match (drop n key) pattern)"
  proof
    assume "\<exists>n<length key. Match (drop n key) pattern"
    then show "\<exists>n. n \<le> length key \<and> Match (drop n key) pattern"
      by (auto intro: less_imp_le)
  next
    assume "\<exists>n. n \<le> length key \<and> Match (drop n key) pattern"
    then obtain n where n: "n \<le> length key" "Match (drop n key) pattern"
      by blast
    with assms have "n \<noteq> length key"
      by auto
    with n show "\<exists>n<length key. Match (drop n key) pattern"
      by (auto simp: le_less)
  qed
  finally show ?thesis .
qed

text \<open>
  C4. The matcher walks key and pattern segment by segment, with the per-segment glob on
  every pattern segment but \<open>**\<close>, and succeeds only when both are used up. A \<open>**\<close> that
  is followed by more pattern matches zero or more whole key segments: the rest of the
  pattern is tried on every suffix of what is left of the key. A \<open>**\<close> that ends the
  pattern succeeds at once when at least one key segment is left, and fails when none is:
  there it stands for one or more segments, not for zero. The six examples of the spec
  hold.
\<close>

theorem Match_segments:
  "Match [] []
   \<and> \<not> Match (k # key) []
   \<and> \<not> Match [] (p # pattern)
   \<and> (p \<noteq> ''**'' \<longrightarrow> Match (k # key) (p # pattern) = (LikeFun_Glob k p \<and> Match key pattern))
   \<and> Match (k # key) [''**'']
   \<and> \<not> Match [] [''**'']
   \<and> (pattern \<noteq> [] \<longrightarrow>
        Match key (''**'' # pattern) = (\<exists>n. n \<le> length key \<and> Match (drop n key) pattern))
   \<and> Match [''a'', ''b'', ''c''] [''a'', ''**'']
   \<and> Match [''a'', ''b'', ''c''] [''**'']
   \<and> \<not> Match [''x''] [''a'', ''**'', ''b'']
   \<and> Match [''a'', ''b''] [''a'', ''*'']
   \<and> \<not> Match [''a''] []"
proof -
  have "pattern \<noteq> [] \<longrightarrow>
        Match key (''**'' # pattern) = (\<exists>n. n \<le> length key \<and> Match (drop n key) pattern)"
    using Match_star_star by blast
  moreover have "Match [''a'', ''b'', ''c''] [''a'', ''**'']"
    by simp
  moreover have "\<not> Match [''x''] [''a'', ''**'', ''b'']"
    by simp
  moreover have "Match [''a'', ''b''] [''a'', ''*'']"
    by simp
  ultimately show ?thesis
    by simp
qed

theorem Match_segments_witness:
  "''*.csv'' \<noteq> ''**''
   \<and> Match [''x.csv'', ''y''] [''*.csv'', ''y'']
      = (LikeFun_Glob ''x.csv'' ''*.csv'' \<and> Match [''y''] [''y''])
   \<and> [''y''] \<noteq> []
   \<and> Match [''y''] [''**'', ''y'']
      = (\<exists>n. n \<le> length [''y''] \<and> Match (drop n [''y'']) [''y''])
   \<and> Match [''y''] [''**'', ''y'']"
  using Match_segments [where k = "''x.csv''" and key = "[''y'']" and p = "''*.csv''"
      and pattern = "[''y'']"]
  by simp

text \<open>
  The key \<open>a\<close> against the pattern \<open>a/**\<close>: a final \<open>**\<close> does not match zero segments.
\<close>

theorem Match_final_star_star_counterexample:
  "\<not> Match [''a''] [''a'', ''**'']"
  by simp

section \<open>Properties of the URL parser\<close>

text \<open>
  On a well-formed URL the parser recovers the parts it was built from, in both forms: the
  short form \<open>scheme://container/path\<close> and the fully qualified form
  \<open>scheme://account.endpoint/container/path\<close>. The prefix that the glob driver puts in
  front of every key, followed by a slash and the path, is then the URL again.
\<close>

lemma find_at_ge: "find_at s needle i = Some d \<Longrightarrow> i \<le> d"
proof (induction s arbitrary: i)
  case Nil
  then show ?case by (simp split: if_splits)
next
  case (Cons x s)
  show ?case
  proof (cases "take (length needle) (x # s) = needle")
    case True
    with Cons.prems show ?thesis by simp
  next
    case False
    with Cons.prems have "find_at s needle (Suc i) = Some d"
      by simp
    from Cons.IH [OF this] show ?thesis
      by simp
  qed
qed

lemma find_at_skip:
  "ch \<notin> set xs \<Longrightarrow> find_at (xs @ ch # rest) [ch] i = Some (i + length xs)"
  by (induction xs arbitrary: i) auto

lemma find_at_lower:
  "find_at (xs @ rest) [ch] i = Some d \<Longrightarrow> ch \<notin> set xs \<Longrightarrow> i + length xs \<le> d"
proof (induction xs arbitrary: i)
  case Nil
  then show ?case
    by (simp add: find_at_ge)
next
  case (Cons x xs)
  from Cons.prems have "find_at (xs @ rest) [ch] (Suc i) = Some d" "ch \<notin> set xs"
    by (auto split: if_splits)
  from Cons.IH [OF this] show ?case
    by simp
qed

lemma str_find_char_skip:
  "ch \<notin> set xs \<Longrightarrow>
   str_find_char (pre @ xs @ ch # rest) ch (length pre) = Some (length pre + length xs)"
  by (simp add: str_find_char_def str_find_def find_at_skip)

lemma str_find_char_lower:
  "str_find_char (pre @ xs @ rest) ch (length pre) = Some d \<Longrightarrow> ch \<notin> set xs \<Longrightarrow>
   length pre + length xs \<le> d"
  by (auto simp: str_find_char_def str_find_def dest: find_at_lower)

lemma scheme_facts:
  assumes "scheme = ''azure://'' \<or> scheme = ''az://''"
  shows "rfind_0 (scheme @ rest) ''azure://'' * rfind_0 (scheme @ rest) ''az://'' = 0"
    and "(case str_find (scheme @ rest) ''//'' 0 of Some p \<Rightarrow> p + 2 | None \<Rightarrow> 1)
         = length scheme"
  using assms by (auto simp: rfind_0_def npos_def str_find_def)

lemma ParseUrl_short_form:
  assumes "scheme = ''azure://'' \<or> scheme = ''az://''"
    and "c \<noteq> []" and "CHR ''.'' \<notin> set c" and "CHR ''/'' \<notin> set c"
  shows "ParseUrl (scheme @ c @ ''/'' @ p) =
         Inr \<lparr>container = c, storage_account_name = [], endpoint = [],
              prefix = scheme, path = p\<rparr>"
proof -
  let ?rest = "c @ CHR ''/'' # p"
  have slash: "str_find_char (scheme @ ?rest) CHR ''/'' (length scheme) =
               Some (length scheme + length c)"
    using str_find_char_skip [OF assms(4), of scheme p] by simp
  have dot: "(case str_find_char (scheme @ ?rest) CHR ''.'' (length scheme) of
               None \<Rightarrow> None
             | Some d \<Rightarrow> if d < length scheme + length c then Some d else None) = None"
    using str_find_char_lower [of scheme c "CHR ''/'' # p" "CHR ''.''"] assms(3)
    by (auto split: option.splits)
  have "ParseUrl (scheme @ ?rest) =
         Inr \<lparr>container = c, storage_account_name = [], endpoint = [],
              prefix = scheme, path = p\<rparr>"
    unfolding ParseUrl_def scheme_facts [OF assms(1)] Let_def
    using assms(2) by (simp add: slash dot substr_def substr_from_def)
  then show ?thesis
    by simp
qed

lemma ParseUrl_qualified_form:
  assumes "scheme = ''azure://'' \<or> scheme = ''az://''"
    and "CHR ''.'' \<notin> set a" and "CHR ''/'' \<notin> set a"
    and "CHR ''/'' \<notin> set e" and "CHR ''/'' \<notin> set c"
  shows "ParseUrl (scheme @ a @ ''.'' @ e @ ''/'' @ c @ ''/'' @ p) =
         Inr \<lparr>container = c, storage_account_name = a, endpoint = e,
              prefix = scheme, path = p\<rparr>"
proof -
  let ?rest = "a @ CHR ''.'' # e @ CHR ''/'' # c @ CHR ''/'' # p"
  have dot: "str_find_char (scheme @ ?rest) CHR ''.'' (length scheme) =
             Some (length scheme + length a)"
    using str_find_char_skip [OF assms(2), of scheme "e @ CHR ''/'' # c @ CHR ''/'' # p"]
    by simp
  from assms(3,4) have n: "CHR ''/'' \<notin> set (a @ CHR ''.'' # e)"
    by simp
  have slash: "str_find_char (scheme @ ?rest) CHR ''/'' (length scheme) =
               Some (Suc (length scheme + length a + length e))"
    using str_find_char_skip [OF n, of scheme "c @ CHR ''/'' # p"] by simp
  have cslash: "str_find_char (scheme @ ?rest) CHR ''/'' (length scheme + length a) =
               Some (Suc (length scheme + length a + length e))"
  proof -
    from assms(4) have "CHR ''/'' \<notin> set (CHR ''.'' # e)"
      by simp
    from str_find_char_skip [OF this, of "scheme @ a" "c @ CHR ''/'' # p"] show ?thesis
      by simp
  qed
  have pslash: "str_find_char (scheme @ ?rest) CHR ''/''
                  (Suc (Suc (length scheme + length a + length e))) =
               Some (Suc (Suc (length scheme + length a + length e + length c)))"
    using str_find_char_skip [OF assms(5), of "scheme @ a @ CHR ''.'' # e @ [CHR ''/'']" p]
    by (simp add: add.assoc)
  have tail: "drop (3 + (length e + length c)) (CHR ''.'' # e @ CHR ''/'' # c @ CHR ''/'' # p) = p"
  proof -
    have "drop (3 + (length e + length c)) (CHR ''.'' # e @ CHR ''/'' # c @ CHR ''/'' # p) =
          drop (Suc (Suc (length e + length c))) (e @ CHR ''/'' # c @ CHR ''/'' # p)"
      by (simp add: numeral_3_eq_3)
    also have "\<dots> = drop (Suc (Suc (length c))) (CHR ''/'' # c @ CHR ''/'' # p)"
      by simp
    also have "\<dots> = p"
      by simp
    finally show ?thesis .
  qed
  have "ParseUrl (scheme @ ?rest) =
         Inr \<lparr>container = c, storage_account_name = a, endpoint = e,
              prefix = scheme, path = p\<rparr>"
    unfolding ParseUrl_def scheme_facts [OF assms(1)] Let_def
    by (simp add: dot slash cslash pslash substr_def substr_from_def tail)
  then show ?thesis
    by simp
qed

lemma ParseUrl_short_form_reconstructs:
  assumes "scheme = ''azure://'' \<or> scheme = ''az://''"
    and "c \<noteq> []" and "CHR ''.'' \<notin> set c" and "CHR ''/'' \<notin> set c"
    and "ParseUrl (scheme @ c @ ''/'' @ p) = Inr u"
  shows "path_result_prefix_of u @ ''/'' @ path u = scheme @ c @ ''/'' @ p"
proof -
  from assms(5) have "u = \<lparr>container = c, storage_account_name = [], endpoint = [],
                           prefix = scheme, path = p\<rparr>"
    unfolding ParseUrl_short_form [OF assms(1-4)] by simp
  then show ?thesis
    by (simp add: path_result_prefix_of_def)
qed

lemma ParseUrl_qualified_form_reconstructs:
  assumes "scheme = ''azure://'' \<or> scheme = ''az://''"
    and "a \<noteq> []" and "CHR ''.'' \<notin> set a" and "CHR ''/'' \<notin> set a"
    and "CHR ''/'' \<notin> set e" and "CHR ''/'' \<notin> set c"
    and "ParseUrl (scheme @ a @ ''.'' @ e @ ''/'' @ c @ ''/'' @ p) = Inr u"
  shows "path_result_prefix_of u @ ''/'' @ path u =
         scheme @ a @ ''.'' @ e @ ''/'' @ c @ ''/'' @ p"
proof -
  from assms(7) have "u = \<lparr>container = c, storage_account_name = a, endpoint = e,
                           prefix = scheme, path = p\<rparr>"
    unfolding ParseUrl_qualified_form [OF assms(1) assms(3-6)] by simp
  then show ?thesis
    using assms(2) by (simp add: path_result_prefix_of_def)
qed

text \<open>
  C7. An empty container is refused in the short form only. In the fully qualified form
  \<open>scheme://account.endpoint/container/path\<close> the parser takes whatever stands between the
  two slashes, also nothing: \<open>azure://acct.ep//file.csv\<close> parses to an empty container,
  where \<open>azure:///file.csv\<close> fails with the format error.
\<close>

theorem ParseUrl_empty_container:
  "ParseUrl ''azure://acct.ep//file.csv'' =
     Inr \<lparr>container = [], storage_account_name = ''acct'', endpoint = ''ep'',
          prefix = ''azure://'', path = ''file.csv''\<rparr>
   \<and> ParseUrl ''azure:///file.csv'' = Inl (IOException (Invalid_url_format ''azure:///file.csv''))"
  by (simp add: ParseUrl_def rfind_0_def npos_def str_find_def str_find_char_def substr_def
      substr_from_def)

section \<open>Properties of the read engine\<close>

lemma new_handle_100:
  "new_AzureStorageFileHandle FILE_FLAGS_READ blob_100
     \<lparr>transfer_concurrency = 5, transfer_chunk_size = 1048576, buffer_size = 10\<rparr> =
   Inr handle_100"
  by (simp add: new_AzureStorageFileHandle_def blob_100_def handle_100_def FILE_FLAGS_READ_def)

lemma Read_loop_done: "Read_loop location hfh 0 buffer_offset trace = Inr (hfh, trace)"
  by (subst Read_loop.simps) simp

lemma read_buffer_access_within:
  assumes "read_buffer hfh = Some capacity" and "unat idx + unat len \<le> unat capacity"
  shows "read_buffer_access hfh idx len = None"
  using assms by (simp add: read_buffer_access_def)

lemma Read_loop_from_buffer:
  assumes "0 < to_read" and "to_read \<le> buffer_available hfh"
    and "read_buffer_access hfh (buffer_idx hfh) to_read = None"
  shows "Read_loop location hfh to_read buffer_offset trace =
         Inr (hfh\<lparr>buffer_idx := buffer_idx hfh + to_read,
                  buffer_available := buffer_available hfh - to_read,
                  file_offset := file_offset hfh + to_read\<rparr>,
              trace @ [BufferCopy buffer_offset (buffer_idx hfh) to_read])"
proof -
  from assms have m: "min (buffer_available hfh) to_read = to_read"
    by (simp add: min_def)
  show ?thesis
    using assms(1,3)
    by (subst Read_loop.simps) (simp add: copy_from_buffer_def m Read_loop_done)
qed

lemma copy_from_empty_buffer:
  "buffer_available hfh = 0 \<Longrightarrow>
   copy_from_buffer hfh to_read buffer_offset trace = Inr (hfh, to_read, buffer_offset, trace)"
  by (simp add: copy_from_buffer_def)

lemma Read_loop_exhausted:
  assumes "buffer_available hfh = 0" and "0 < to_read"
  shows "Read_loop location hfh to_read buffer_offset trace =
         (let new_buffer_available =
                min (buffer_size (read_options hfh)) (length_hfh hfh - file_offset hfh)
          in if new_buffer_available < to_read then
               (case ReadRange hfh (location + buffer_offset)
                       (Caller_buffer buffer_offset) to_read trace of
                  Inl e \<Rightarrow> Inl e
                | Inr trace' \<Rightarrow>
                    Inr (hfh\<lparr>buffer_available := 0,
                             buffer_idx := 0,
                             file_offset := file_offset hfh + to_read\<rparr>, trace'))
             else
               (case ReadRange hfh (file_offset hfh) Read_buffer
                       new_buffer_available trace of
                  Inl e \<Rightarrow> Inl e
                | Inr trace' \<Rightarrow>
                    Read_loop location
                      (hfh\<lparr>buffer_available := new_buffer_available,
                            buffer_idx := 0,
                            buffer_start := file_offset hfh,
                            buffer_end := file_offset hfh + new_buffer_available\<rparr>)
                      to_read buffer_offset trace'))"
  using assms by (subst Read_loop.simps) (simp add: copy_from_empty_buffer)

lemma Read_loop_bypass:
  assumes "buffer_available hfh = 0" and "0 < to_read"
    and "min (buffer_size (read_options hfh)) (length_hfh hfh - file_offset hfh) < to_read"
  shows "Read_loop location hfh to_read buffer_offset trace =
         (if DownloadTo (blob_client hfh) (location + buffer_offset) to_read
          then Inr (hfh\<lparr>buffer_available := 0,
                        buffer_idx := 0,
                        file_offset := file_offset hfh + to_read\<rparr>,
                    trace @ [RangeFetch (location + buffer_offset) to_read
                               (Caller_buffer buffer_offset)])
          else Inl (IOException Read_range_failed))"
  using assms(3)
  by (simp add: Read_loop_exhausted [OF assms(1,2)] ReadRange_def Let_def)

lemma Read_loop_refill:
  assumes "buffer_available hfh = 0" and "0 < to_read"
    and "\<not> min (buffer_size (read_options hfh)) (length_hfh hfh - file_offset hfh) < to_read"
    and "read_buffer hfh = Some capacity" and "buffer_size (read_options hfh) \<le> capacity"
  shows "Read_loop location hfh to_read buffer_offset trace =
         (let new_buffer_available =
                min (buffer_size (read_options hfh)) (length_hfh hfh - file_offset hfh)
          in if DownloadTo (blob_client hfh) (file_offset hfh) new_buffer_available
             then Inr (hfh\<lparr>buffer_available := new_buffer_available - to_read,
                           buffer_idx := to_read,
                           file_offset := file_offset hfh + to_read,
                           buffer_start := file_offset hfh,
                           buffer_end := file_offset hfh + new_buffer_available\<rparr>,
                       trace @ [RangeFetch (file_offset hfh) new_buffer_available Read_buffer,
                                BufferCopy buffer_offset 0 to_read])
             else Inl (IOException Read_range_failed))"
proof -
  define n where "n = min (buffer_size (read_options hfh)) (length_hfh hfh - file_offset hfh)"
  define hfh' where "hfh' = hfh\<lparr>buffer_available := n, buffer_idx := 0,
     buffer_start := file_offset hfh, buffer_end := file_offset hfh + n\<rparr>"
  from assms(3) have le: "to_read \<le> buffer_available hfh'"
    by (simp add: n_def hfh'_def not_less)
  have "n \<le> buffer_size (read_options hfh)"
    by (simp add: n_def)
  with assms(5) have n: "unat n \<le> unat capacity"
    by (simp add: word_le_nat_alt)
  with assms(4) have fits: "read_buffer_access hfh 0 n = None"
    by (simp add: read_buffer_access_def)
  from le have "unat to_read \<le> unat n"
    by (simp add: hfh'_def word_le_nat_alt)
  with n assms(4) have "read_buffer_access hfh' (buffer_idx hfh') to_read = None"
    by (simp add: read_buffer_access_def hfh'_def)
  note copy = Read_loop_from_buffer [OF assms(2) le this]
  have step: "Read_loop location hfh to_read buffer_offset trace =
        (if DownloadTo (blob_client hfh) (file_offset hfh) n
         then Read_loop location hfh' to_read buffer_offset
                (trace @ [RangeFetch (file_offset hfh) n Read_buffer])
         else Inl (IOException Read_range_failed))"
    using assms(3) fits
    by (simp add: Read_loop_exhausted [OF assms(1,2)] ReadRange_def Let_def n_def hfh'_def)
  show ?thesis
    unfolding step copy
    by (simp add: Let_def n_def [symmetric] hfh'_def)
qed

lemma Read_loop_refill_null:
  assumes "buffer_available hfh = 0" and "0 < to_read"
    and "\<not> min (buffer_size (read_options hfh)) (length_hfh hfh - file_offset hfh) < to_read"
    and "read_buffer hfh = None"
  shows "Read_loop location hfh to_read buffer_offset trace =
         (if DownloadTo (blob_client hfh) (file_offset hfh)
               (min (buffer_size (read_options hfh)) (length_hfh hfh - file_offset hfh))
          then Inl NullPointerDereference
          else Inl (IOException Read_range_failed))"
  using assms(3,4)
  by (simp add: Read_loop_exhausted [OF assms(1,2)] ReadRange_def Let_def
      read_buffer_access_def)


lemma window_split:
  fixes location :: idx_t
  assumes "window_start \<le> location" and "location < window_end"
  shows "unat (location - window_start) + unat (window_end - location)
         = unat (window_end - window_start)"
proof -
  from assms have le: "window_start \<le> window_end" "location \<le> window_end"
    by auto
  from assms le show ?thesis
    by (simp add: unat_sub word_le_nat_alt)
qed

lemma Read_outside_window:
  assumes "flags hfh AND FILE_FLAGS_DIRECT_IO = 0"
    and "\<not> (buffer_start hfh \<le> location \<and> location < buffer_end hfh)"
  shows "Read hfh nr_bytes location trace =
         Read_loop location
           (hfh\<lparr>buffer_available := 0, buffer_idx := 0, file_offset := location\<rparr>)
           nr_bytes 0 trace"
  using assms by (auto simp: Read_def)

lemma Read_within_window:
  assumes "flags hfh AND FILE_FLAGS_DIRECT_IO = 0"
    and "buffer_start hfh \<le> location" and "location < buffer_end hfh"
  shows "Read hfh nr_bytes location trace =
         Read_loop location
           (hfh\<lparr>file_offset := location,
                 buffer_idx := location - buffer_start hfh,
                 buffer_available := buffer_end hfh - location\<rparr>)
           nr_bytes 0 trace"
  using assms by (simp add: Read_def)


lemma Read_inside_window:
  assumes "flags hfh AND FILE_FLAGS_DIRECT_IO = 0"
    and "buffer_start hfh \<le> location" and "location < buffer_end hfh"
    and "nr_bytes \<le> buffer_end hfh - location"
    and "read_buffer hfh = Some capacity" and "buffer_end hfh - buffer_start hfh \<le> capacity"
  shows "Read hfh nr_bytes location trace =
         Inr (hfh\<lparr>file_offset := location + nr_bytes,
                  buffer_idx := location - buffer_start hfh + nr_bytes,
                  buffer_available := buffer_end hfh - location - nr_bytes\<rparr>,
              if nr_bytes = 0 then trace
              else trace @ [BufferCopy 0 (location - buffer_start hfh) nr_bytes])"
proof (cases "nr_bytes = 0")
  case True
  with assms(1-3) show ?thesis
    by (simp add: Read_within_window Read_loop_done)
next
  case False
  let ?h = "hfh\<lparr>file_offset := location,
                  buffer_idx := location - buffer_start hfh,
                  buffer_available := buffer_end hfh - location\<rparr>"
  from False have pos: "0 < nr_bytes"
    by (simp add: word_gt_0)
  from assms(4) have le: "nr_bytes \<le> buffer_available ?h"
    by simp
  from assms(4,6) window_split [OF assms(2,3)]
  have "unat (location - buffer_start hfh) + unat nr_bytes \<le> unat capacity"
    by (simp add: word_le_nat_alt)
  with assms(5) have "read_buffer_access ?h (buffer_idx ?h) nr_bytes = None"
    by (simp add: read_buffer_access_def)
  from Read_loop_from_buffer [OF pos le this, of location 0 trace] False
  show ?thesis
    by (simp add: Read_within_window [OF assms(1-3)])
qed

lemma Read_outside_window_cases:
  assumes "flags hfh AND FILE_FLAGS_DIRECT_IO = 0"
    and "\<not> (buffer_start hfh \<le> location \<and> location < buffer_end hfh)"
    and "read_buffer hfh = Some capacity" and "buffer_size (read_options hfh) \<le> capacity"
  shows "Read hfh nr_bytes location trace =
         (let new_buffer_available =
                min (buffer_size (read_options hfh)) (length_hfh hfh - location)
          in if nr_bytes = 0 then
               Inr (hfh\<lparr>buffer_available := 0, buffer_idx := 0, file_offset := location\<rparr>,
                    trace)
             else if new_buffer_available < nr_bytes then
               (if DownloadTo (blob_client hfh) location nr_bytes
                then Inr (hfh\<lparr>buffer_available := 0,
                              buffer_idx := 0,
                              file_offset := location + nr_bytes\<rparr>,
                          trace @ [RangeFetch location nr_bytes (Caller_buffer 0)])
                else Inl (IOException Read_range_failed))
             else
               (if DownloadTo (blob_client hfh) location new_buffer_available
                then Inr (hfh\<lparr>buffer_available := new_buffer_available - nr_bytes,
                              buffer_idx := nr_bytes,
                              file_offset := location + nr_bytes,
                              buffer_start := location,
                              buffer_end := location + new_buffer_available\<rparr>,
                          trace @ [RangeFetch location new_buffer_available Read_buffer,
                                   BufferCopy 0 0 nr_bytes])
                else Inl (IOException Read_range_failed)))"
proof -
  let ?h = "hfh\<lparr>buffer_available := 0, buffer_idx := 0, file_offset := location\<rparr>"
  let ?n = "min (buffer_size (read_options hfh)) (length_hfh hfh - location)"
  have e: "buffer_available ?h = 0"
    by simp
  from assms(3,4) have b: "read_buffer ?h = Some capacity"
      "buffer_size (read_options ?h) \<le> capacity"
    by simp_all
  consider "nr_bytes = 0" | "0 < nr_bytes" "?n < nr_bytes" | "0 < nr_bytes" "\<not> ?n < nr_bytes"
    by (auto simp: word_gt_0)
  then show ?thesis
  proof cases
    case 1
    then show ?thesis
      by (simp add: Read_outside_window [OF assms(1,2)] Read_loop_done Let_def)
  next
    case 2
    from 2(2) have "min (buffer_size (read_options ?h)) (length_hfh ?h - file_offset ?h)
                    < nr_bytes"
      by simp
    from Read_loop_bypass [OF e 2(1) this, of location 0 trace] 2
    show ?thesis
      by (simp add: Read_outside_window [OF assms(1,2)] Let_def)
  next
    case 3
    from 3(2) have "\<not> min (buffer_size (read_options ?h)) (length_hfh ?h - file_offset ?h)
                    < nr_bytes"
      by simp
    from Read_loop_refill [OF e 3(1) this b, of location 0 trace] 3
    show ?thesis
      by (simp add: Read_outside_window [OF assms(1,2)] Let_def)
  qed
qed


text \<open>
  The constructor establishes the buffer invariant on every handle that it opens with
  \<^verbatim>\<open>FILE_FLAGS_READ\<close>, and a read keeps it. Under the invariant no access to the read
  buffer goes wrong: a read fails with the \<^verbatim>\<open>IOException\<close> of a failed fetch or not at
  all.
\<close>

lemma copy_from_buffer_invariant:
  assumes "buffer_invariant hfh"
  shows "copy_from_buffer hfh to_read buffer_offset trace =
         (let buffer_read_len = min (buffer_available hfh) to_read
          in if 0 < buffer_read_len
             then Inr (hfh\<lparr>buffer_idx := buffer_idx hfh + buffer_read_len,
                           buffer_available := buffer_available hfh - buffer_read_len,
                           file_offset := file_offset hfh + buffer_read_len\<rparr>,
                       to_read - buffer_read_len,
                       buffer_offset + buffer_read_len,
                       trace @ [BufferCopy buffer_offset (buffer_idx hfh) buffer_read_len])
             else Inr (hfh, to_read, buffer_offset, trace))"
proof -
  have "unat (min (buffer_available hfh) to_read) \<le> unat (buffer_available hfh)"
    by (simp add: word_le_nat_alt [symmetric])
  with assms have "read_buffer_access hfh (buffer_idx hfh) (min (buffer_available hfh) to_read)
                   = None"
    by (simp add: buffer_invariant_def read_buffer_access_def)
  then show ?thesis
    by (simp add: copy_from_buffer_def Let_def)
qed

lemma buffer_invariant_copied:
  assumes "buffer_invariant hfh" and "len \<le> buffer_available hfh"
  shows "buffer_invariant
           (hfh\<lparr>buffer_idx := buffer_idx hfh + len,
                 buffer_available := buffer_available hfh - len,
                 file_offset := file_offset hfh + len\<rparr>)"
proof -
  have "unat (buffer_idx hfh + len) \<le> unat (buffer_idx hfh) + unat len"
    by (simp add: unat_word_ariths)
  moreover from assms(2) have "unat (buffer_available hfh - len)
                               = unat (buffer_available hfh) - unat len"
    by (rule unat_sub)
  moreover from assms(2) have "unat len \<le> unat (buffer_available hfh)"
    by (simp add: word_le_nat_alt)
  ultimately have "unat (buffer_idx hfh + len) + unat (buffer_available hfh - len)
                   \<le> unat (buffer_idx hfh) + unat (buffer_available hfh)"
    by arith
  with assms(1) show ?thesis
    by (simp add: buffer_invariant_def)
qed

lemma buffer_invariant_refilled:
  assumes "buffer_invariant hfh"
  shows "buffer_invariant
           (hfh\<lparr>buffer_available :=
                   min (buffer_size (read_options hfh)) (length_hfh hfh - file_offset hfh),
                 buffer_idx := 0,
                 buffer_start := file_offset hfh,
                 buffer_end := file_offset hfh
                   + min (buffer_size (read_options hfh)) (length_hfh hfh - file_offset hfh)\<rparr>)"
  using assms by (simp add: buffer_invariant_def word_le_nat_alt [symmetric])

lemma buffer_invariant_emptied:
  assumes "buffer_invariant hfh"
  shows "buffer_invariant (hfh\<lparr>buffer_available := 0, buffer_idx := 0, file_offset := pos\<rparr>)"
  using assms by (simp add: buffer_invariant_def)

lemma buffer_invariant_repositioned:
  assumes "buffer_invariant hfh"
    and "buffer_start hfh \<le> location" and "location < buffer_end hfh"
  shows "buffer_invariant
           (hfh\<lparr>file_offset := location,
                 buffer_idx := location - buffer_start hfh,
                 buffer_available := buffer_end hfh - location\<rparr>)"
  using assms window_split [OF assms(2,3)]
  by (simp add: buffer_invariant_def word_le_nat_alt)

lemma new_handle_invariant:
  assumes "new_AzureStorageFileHandle flags_p client options = Inr hfh"
    and "flags_p AND FILE_FLAGS_READ \<noteq> 0"
  shows "buffer_invariant hfh"
  using assms
  by (auto simp: new_AzureStorageFileHandle_def buffer_invariant_def
      split: sum.splits sdk_failure.splits)

lemma Read_loop_invariant:
  "buffer_invariant hfh \<Longrightarrow>
   (case Read_loop location hfh to_read buffer_offset trace of
      Inl e \<Rightarrow> e = IOException Read_range_failed
    | Inr (hfh', trace') \<Rightarrow> buffer_invariant hfh')"
proof (induction location hfh to_read buffer_offset trace rule: Read_loop.induct)
  case (1 location hfh0 to_read0 buffer_offset0 trace0)
  note inv = "1.prems"
  show ?case
  proof (cases "0 < to_read0")
    case False
    with inv show ?thesis
      by (subst Read_loop.simps) simp
  next
    case True
    define len where "len = min (buffer_available hfh0) to_read0"
    define h1 where "h1 = (if 0 < len
       then hfh0\<lparr>buffer_idx := buffer_idx hfh0 + len,
                 buffer_available := buffer_available hfh0 - len,
                 file_offset := file_offset hfh0 + len\<rparr>
       else hfh0)"
    define t1 where "t1 = (if 0 < len then to_read0 - len else to_read0)"
    define b1 where "b1 = (if 0 < len then buffer_offset0 + len else buffer_offset0)"
    define tr1 where "tr1 = (if 0 < len
       then trace0 @ [BufferCopy buffer_offset0 (buffer_idx hfh0) len] else trace0)"
    have copy: "copy_from_buffer hfh0 to_read0 buffer_offset0 trace0 = Inr (h1, t1, b1, tr1)"
      unfolding copy_from_buffer_invariant [OF inv]
      by (simp add: Let_def len_def h1_def t1_def b1_def tr1_def)
    have inv1: "buffer_invariant h1"
      using buffer_invariant_copied [OF inv, of len] inv
      by (simp add: h1_def len_def)
    show ?thesis
    proof (cases "0 < t1 \<and> buffer_available h1 = 0")
      case False
      then have step: "Read_loop location hfh0 to_read0 buffer_offset0 trace0 =
                       Read_loop location h1 t1 b1 tr1"
        using True by (subst Read_loop.simps) (auto simp: copy)
      from "1.IH"(2) [OF True copy refl refl refl False inv1] show ?thesis
        unfolding step .
    next
      case exhausted: True
      define n where "n = min (buffer_size (read_options h1)) (length_hfh h1 - file_offset h1)"
      let ?h2 = "h1\<lparr>buffer_available := n, buffer_idx := 0,
                      buffer_start := file_offset h1, buffer_end := file_offset h1 + n\<rparr>"
      have inv2: "buffer_invariant ?h2"
        using buffer_invariant_refilled [OF inv1] by (simp add: n_def)
      have step: "Read_loop location hfh0 to_read0 buffer_offset0 trace0 =
          (if n < t1 then
             (case ReadRange h1 (location + b1) (Caller_buffer b1) t1 tr1 of
                Inl e \<Rightarrow> Inl e
              | Inr trace' \<Rightarrow>
                  Inr (h1\<lparr>buffer_available := 0, buffer_idx := 0,
                          file_offset := file_offset h1 + t1\<rparr>, trace'))
           else
             (case ReadRange h1 (file_offset h1) Read_buffer n tr1 of
                Inl e \<Rightarrow> Inl e
              | Inr trace' \<Rightarrow> Read_loop location ?h2 t1 b1 trace'))"
        using True exhausted unfolding n_def
        by (subst Read_loop.simps) (simp add: copy Let_def)
      show ?thesis
      proof (cases "n < t1")
        case True
        with buffer_invariant_emptied [OF inv1, of "file_offset h1 + t1"] show ?thesis
          unfolding step by (simp add: ReadRange_def)
      next
        case False
        have "unat n \<le> unat (buffer_size (read_options h1))"
          by (simp add: n_def word_le_nat_alt [symmetric])
        with inv1 have fits: "read_buffer_access h1 0 n = None"
          by (simp add: buffer_invariant_def read_buffer_access_def)
        show ?thesis
        proof (cases "DownloadTo (blob_client h1) (file_offset h1) n")
          case failed: False
          with False show ?thesis
            unfolding step by (simp add: ReadRange_def)
        next
          case True
          with fits have rr: "ReadRange h1 (file_offset h1) Read_buffer n tr1 =
              Inr (tr1 @ [RangeFetch (file_offset h1) n Read_buffer])"
            by (simp add: ReadRange_def)
          from "1.IH"(1) [OF \<open>0 < to_read0\<close> copy refl refl refl exhausted n_def False rr inv2]
          show ?thesis
            unfolding step using False by (simp add: rr)
        qed
      qed
    qed
  qed
qed

lemma Read_invariant:
  assumes "buffer_invariant hfh"
  shows "case Read hfh nr_bytes location trace of
           Inl e \<Rightarrow> e = IOException Read_range_failed
         | Inr (hfh', trace') \<Rightarrow> buffer_invariant hfh'"
proof (cases "flags hfh AND FILE_FLAGS_DIRECT_IO \<noteq> 0 \<and> 0 < nr_bytes")
  case True
  with buffer_invariant_emptied [OF assms, of "location + nr_bytes"] show ?thesis
    by (simp add: Read_def ReadRange_def)
next
  case False
  show ?thesis
  proof (cases "buffer_start hfh \<le> location \<and> location < buffer_end hfh")
    case window: True
    then have "buffer_invariant
           (hfh\<lparr>file_offset := location,
                 buffer_idx := location - buffer_start hfh,
                 buffer_available := buffer_end hfh - location\<rparr>)"
      using buffer_invariant_repositioned [OF assms] by simp
    from Read_loop_invariant [OF this, of location nr_bytes 0 trace] False window
    show ?thesis
      by (auto simp: Read_def)
  next
    case outside: False
    from Read_loop_invariant [OF buffer_invariant_emptied [OF assms, of location],
        of location nr_bytes 0 trace] False outside
    show ?thesis
      by (auto simp: Read_def)
  qed
qed

text \<open>
  A handle opened without \<^verbatim>\<open>FILE_FLAGS_READ\<close> has no read buffer, and it never gets a
  buffer window: a read that returns leaves the window as empty as the constructor made it.
\<close>

lemma Read_loop_without_buffer:
  assumes "read_buffer hfh = None" and "buffer_available hfh = 0"
    and "Read_loop location hfh to_read buffer_offset trace = Inr (hfh', trace')"
  shows "read_buffer hfh' = None \<and> buffer_available hfh' = 0
         \<and> buffer_start hfh' = buffer_start hfh \<and> buffer_end hfh' = buffer_end hfh"
proof (cases "0 < to_read")
  case False
  with assms show ?thesis
    by (simp add: word_gt_0 Read_loop_done)
next
  case True
  show ?thesis
  proof (cases "min (buffer_size (read_options hfh)) (length_hfh hfh - file_offset hfh)
                < to_read")
    case bypass: True
    from assms(3) show ?thesis
      unfolding Read_loop_bypass [OF assms(2) True bypass]
      using assms(1) by (auto split: if_splits)
  next
    case False
    from assms(3) show ?thesis
      unfolding Read_loop_refill_null [OF assms(2) True False assms(1)]
      by (simp split: if_splits)
  qed
qed

lemma Read_without_buffer:
  assumes "read_buffer hfh = None" and "buffer_start hfh = buffer_end hfh"
    and "Read hfh nr_bytes location trace = Inr (hfh', trace')"
  shows "read_buffer hfh' = None \<and> buffer_available hfh' = 0
         \<and> buffer_start hfh' = buffer_start hfh \<and> buffer_end hfh' = buffer_end hfh"
proof (cases "flags hfh AND FILE_FLAGS_DIRECT_IO \<noteq> 0 \<and> 0 < nr_bytes")
  case True
  with assms(1,3) show ?thesis
    by (auto simp: Read_def ReadRange_def split: if_splits)
next
  case False
  let ?h = "hfh\<lparr>buffer_available := 0, buffer_idx := 0, file_offset := location\<rparr>"
  from assms(2) have "\<not> (buffer_start hfh \<le> location \<and> location < buffer_end hfh)"
    by auto
  with False assms(3) have "Read_loop location ?h nr_bytes 0 trace = Inr (hfh', trace')"
    by (auto simp: Read_def)
  from Read_loop_without_buffer [OF _ _ this] assms(1) show ?thesis
    by simp
qed

lemma new_handle_without_buffer:
  assumes "new_AzureStorageFileHandle flags_p client options = Inr hfh"
    and "flags_p AND FILE_FLAGS_READ = 0"
  shows "read_buffer hfh = None \<and> buffer_available hfh = 0
         \<and> buffer_start hfh = buffer_end hfh"
  using assms
  by (auto simp: new_AzureStorageFileHandle_def split: sum.splits sdk_failure.splits)

text \<open>
  A handle that was not opened for reading has no read buffer. A read that has to go through
  the buffer then stores the downloaded bytes through the null pointer; only a read that
  bypasses the buffer succeeds.
\<close>

lemma Read_without_read_buffer:
  "new_AzureStorageFileHandle 0 blob_100
     \<lparr>transfer_concurrency = 5, transfer_chunk_size = 1048576, buffer_size = 10\<rparr> =
   Inr (handle_100\<lparr>flags := 0, read_buffer := None\<rparr>)
   \<and> Read (handle_100\<lparr>flags := 0, read_buffer := None\<rparr>) 4 30 [] = Inl NullPointerDereference
   \<and> Read (handle_100\<lparr>flags := 0, read_buffer := None\<rparr>) 11 30 [] =
     Inr (handle_100\<lparr>flags := 0, read_buffer := None, file_offset := 41\<rparr>,
          [RangeFetch 30 11 (Caller_buffer 0)])"
  by (simp add: new_AzureStorageFileHandle_def handle_100_def blob_100_def any_range_def
      FILE_FLAGS_READ_def FILE_FLAGS_DIRECT_IO_def Read_def Read_loop.simps
      copy_from_buffer_def ReadRange_def read_buffer_access_def)

text \<open>
  A read buffer that is smaller than \<^verbatim>\<open>buffer_size\<close>, which no handle of the constructor
  has, would be overrun by a refill.
\<close>

lemma Read_small_read_buffer:
  "Read (handle_100\<lparr>read_buffer := Some 3\<rparr>) 4 30 [] = Inl BufferOverrun"
  by (simp add: handle_100_def blob_100_def any_range_def FILE_FLAGS_DIRECT_IO_def Read_def
      Read_loop.simps copy_from_buffer_def ReadRange_def read_buffer_access_def)




text \<open>
  C2. On a handle without direct I/O, every read starts by positioning the handle and then
  runs the copy loop. If the offset lies in the buffer window \<open>[buffer_start, buffer_end)\<close>,
  then \<open>file_offset\<close>, \<open>buffer_idx\<close> and \<open>buffer_available\<close> are recomputed from the
  window, whatever the size of the request; otherwise \<open>buffer_available = 0\<close>,
  \<open>buffer_idx = 0\<close> and \<open>file_offset = location\<close>. Nothing is fetched for that. On a handle
  whose read buffer is allocated, a read whose offset lies in the window and whose bytes all
  lie in it issues no fetch, whatever the remote would answer; it copies from the buffer
  (nothing at all for zero bytes) and changes only \<open>file_offset\<close>, \<open>buffer_idx\<close> and
  \<open>buffer_available\<close>. A read whose offset lies outside the window ends, for zero bytes, in
  exactly the invalidated state, and otherwise starts with a fetch at \<open>location\<close>. As for the
  copy loop itself: with nothing to read it returns at once, and with no more to read than the
  buffer has available it copies that from the buffer and returns, without a fetch.
\<close>

theorem Read_window_positioning:
  "(flags hfh AND FILE_FLAGS_DIRECT_IO = 0 \<longrightarrow>
     (buffer_start hfh \<le> location \<and> location < buffer_end hfh \<longrightarrow>
      Read hfh nr_bytes location trace =
        Read_loop location
          (hfh\<lparr>file_offset := location,
                buffer_idx := location - buffer_start hfh,
                buffer_available :=
                  (buffer_end hfh - buffer_start hfh) - (location - buffer_start hfh)\<rparr>)
          nr_bytes 0 trace)
     \<and> (\<not> (buffer_start hfh \<le> location \<and> location < buffer_end hfh) \<longrightarrow>
      Read hfh nr_bytes location trace =
        Read_loop location
          (hfh\<lparr>buffer_available := 0, buffer_idx := 0, file_offset := location\<rparr>)
          nr_bytes 0 trace))
   \<and> (flags hfh AND FILE_FLAGS_DIRECT_IO = 0 \<and> buffer_invariant hfh \<longrightarrow>
     (buffer_start hfh \<le> location \<and> location < buffer_end hfh
        \<and> nr_bytes \<le> buffer_end hfh - location \<longrightarrow>
      Read hfh nr_bytes location trace =
        Inr (hfh\<lparr>file_offset := location + nr_bytes,
                 buffer_idx := location - buffer_start hfh + nr_bytes,
                 buffer_available := buffer_end hfh - location - nr_bytes\<rparr>,
             if nr_bytes = 0 then trace
             else trace @ [BufferCopy 0 (location - buffer_start hfh) nr_bytes]))
     \<and> (\<not> (buffer_start hfh \<le> location \<and> location < buffer_end hfh) \<longrightarrow>
      Read hfh nr_bytes location trace =
        (let new_buffer_available =
               min (buffer_size (read_options hfh)) (length_hfh hfh - location)
         in if nr_bytes = 0 then
              Inr (hfh\<lparr>buffer_available := 0, buffer_idx := 0, file_offset := location\<rparr>,
                   trace)
            else if new_buffer_available < nr_bytes then
              (if DownloadTo (blob_client hfh) location nr_bytes
               then Inr (hfh\<lparr>buffer_available := 0,
                             buffer_idx := 0,
                             file_offset := location + nr_bytes\<rparr>,
                         trace @ [RangeFetch location nr_bytes (Caller_buffer 0)])
               else Inl (IOException Read_range_failed))
            else
              (if DownloadTo (blob_client hfh) location new_buffer_available
               then Inr (hfh\<lparr>buffer_available := new_buffer_available - nr_bytes,
                             buffer_idx := nr_bytes,
                             file_offset := location + nr_bytes,
                             buffer_start := location,
                             buffer_end := location + new_buffer_available\<rparr>,
                         trace @ [RangeFetch location new_buffer_available Read_buffer,
                                  BufferCopy 0 0 nr_bytes])
               else Inl (IOException Read_range_failed)))))
   \<and> Read_loop offset h 0 buffer_offset trace0 = Inr (h, trace0)
   \<and> (buffer_invariant h \<and> 0 < to_read \<and> to_read \<le> buffer_available h \<longrightarrow>
      Read_loop offset h to_read buffer_offset trace0 =
        Inr (h\<lparr>buffer_idx := buffer_idx h + to_read,
               buffer_available := buffer_available h - to_read,
               file_offset := file_offset h + to_read\<rparr>,
             trace0 @ [BufferCopy buffer_offset (buffer_idx h) to_read]))"
proof -
  have positioned: "flags hfh AND FILE_FLAGS_DIRECT_IO = 0 \<longrightarrow>
     (buffer_start hfh \<le> location \<and> location < buffer_end hfh \<longrightarrow>
      Read hfh nr_bytes location trace =
        Read_loop location
          (hfh\<lparr>file_offset := location,
                buffer_idx := location - buffer_start hfh,
                buffer_available :=
                  (buffer_end hfh - buffer_start hfh) - (location - buffer_start hfh)\<rparr>)
          nr_bytes 0 trace)
     \<and> (\<not> (buffer_start hfh \<le> location \<and> location < buffer_end hfh) \<longrightarrow>
      Read hfh nr_bytes location trace =
        Read_loop location
          (hfh\<lparr>buffer_available := 0, buffer_idx := 0, file_offset := location\<rparr>)
          nr_bytes 0 trace)"
    using Read_within_window [of hfh location nr_bytes trace]
      Read_outside_window [of hfh location nr_bytes trace]
    by simp
  have buffered: "flags hfh AND FILE_FLAGS_DIRECT_IO = 0 \<and> buffer_invariant hfh \<longrightarrow>
     (buffer_start hfh \<le> location \<and> location < buffer_end hfh
        \<and> nr_bytes \<le> buffer_end hfh - location \<longrightarrow>
      Read hfh nr_bytes location trace =
        Inr (hfh\<lparr>file_offset := location + nr_bytes,
                 buffer_idx := location - buffer_start hfh + nr_bytes,
                 buffer_available := buffer_end hfh - location - nr_bytes\<rparr>,
             if nr_bytes = 0 then trace
             else trace @ [BufferCopy 0 (location - buffer_start hfh) nr_bytes]))
     \<and> (\<not> (buffer_start hfh \<le> location \<and> location < buffer_end hfh) \<longrightarrow>
      Read hfh nr_bytes location trace =
        (let new_buffer_available =
               min (buffer_size (read_options hfh)) (length_hfh hfh - location)
         in if nr_bytes = 0 then
              Inr (hfh\<lparr>buffer_available := 0, buffer_idx := 0, file_offset := location\<rparr>,
                   trace)
            else if new_buffer_available < nr_bytes then
              (if DownloadTo (blob_client hfh) location nr_bytes
               then Inr (hfh\<lparr>buffer_available := 0,
                             buffer_idx := 0,
                             file_offset := location + nr_bytes\<rparr>,
                         trace @ [RangeFetch location nr_bytes (Caller_buffer 0)])
               else Inl (IOException Read_range_failed))
            else
              (if DownloadTo (blob_client hfh) location new_buffer_available
               then Inr (hfh\<lparr>buffer_available := new_buffer_available - nr_bytes,
                             buffer_idx := nr_bytes,
                             file_offset := location + nr_bytes,
                             buffer_start := location,
                             buffer_end := location + new_buffer_available\<rparr>,
                         trace @ [RangeFetch location new_buffer_available Read_buffer,
                                  BufferCopy 0 0 nr_bytes])
               else Inl (IOException Read_range_failed))))"
  proof (intro impI)
    assume a: "flags hfh AND FILE_FLAGS_DIRECT_IO = 0 \<and> buffer_invariant hfh"
    then have f: "flags hfh AND FILE_FLAGS_DIRECT_IO = 0"
      and b: "read_buffer hfh = Some (buffer_size (read_options hfh))"
      and w: "buffer_end hfh - buffer_start hfh \<le> buffer_size (read_options hfh)"
      by (simp_all add: buffer_invariant_def)
    from Read_inside_window [OF f _ _ _ b w, of location nr_bytes trace]
      Read_outside_window_cases [OF f _ b order_refl, of location nr_bytes trace]
    show "(buffer_start hfh \<le> location \<and> location < buffer_end hfh
        \<and> nr_bytes \<le> buffer_end hfh - location \<longrightarrow>
      Read hfh nr_bytes location trace =
        Inr (hfh\<lparr>file_offset := location + nr_bytes,
                 buffer_idx := location - buffer_start hfh + nr_bytes,
                 buffer_available := buffer_end hfh - location - nr_bytes\<rparr>,
             if nr_bytes = 0 then trace
             else trace @ [BufferCopy 0 (location - buffer_start hfh) nr_bytes]))
     \<and> (\<not> (buffer_start hfh \<le> location \<and> location < buffer_end hfh) \<longrightarrow>
      Read hfh nr_bytes location trace =
        (let new_buffer_available =
               min (buffer_size (read_options hfh)) (length_hfh hfh - location)
         in if nr_bytes = 0 then
              Inr (hfh\<lparr>buffer_available := 0, buffer_idx := 0, file_offset := location\<rparr>,
                   trace)
            else if new_buffer_available < nr_bytes then
              (if DownloadTo (blob_client hfh) location nr_bytes
               then Inr (hfh\<lparr>buffer_available := 0,
                             buffer_idx := 0,
                             file_offset := location + nr_bytes\<rparr>,
                         trace @ [RangeFetch location nr_bytes (Caller_buffer 0)])
               else Inl (IOException Read_range_failed))
            else
              (if DownloadTo (blob_client hfh) location new_buffer_available
               then Inr (hfh\<lparr>buffer_available := new_buffer_available - nr_bytes,
                             buffer_idx := nr_bytes,
                             file_offset := location + nr_bytes,
                             buffer_start := location,
                             buffer_end := location + new_buffer_available\<rparr>,
                         trace @ [RangeFetch location new_buffer_available Read_buffer,
                                  BufferCopy 0 0 nr_bytes])
               else Inl (IOException Read_range_failed))))"
      by blast
  qed
  have copying: "buffer_invariant h \<and> 0 < to_read \<and> to_read \<le> buffer_available h \<longrightarrow>
      Read_loop offset h to_read buffer_offset trace0 =
        Inr (h\<lparr>buffer_idx := buffer_idx h + to_read,
               buffer_available := buffer_available h - to_read,
               file_offset := file_offset h + to_read\<rparr>,
             trace0 @ [BufferCopy buffer_offset (buffer_idx h) to_read])"
  proof (intro impI)
    assume a: "buffer_invariant h \<and> 0 < to_read \<and> to_read \<le> buffer_available h"
    then have "unat to_read \<le> unat (buffer_available h)"
      by (simp add: word_le_nat_alt)
    with a have "read_buffer_access h (buffer_idx h) to_read = None"
      by (simp add: buffer_invariant_def read_buffer_access_def)
    from Read_loop_from_buffer [OF _ _ this, of offset buffer_offset trace0] a
    show "Read_loop offset h to_read buffer_offset trace0 =
        Inr (h\<lparr>buffer_idx := buffer_idx h + to_read,
               buffer_available := buffer_available h - to_read,
               file_offset := file_offset h + to_read\<rparr>,
             trace0 @ [BufferCopy buffer_offset (buffer_idx h) to_read])"
      by simp
  qed
  from positioned buffered Read_loop_done [of offset h buffer_offset trace0] copying
  show ?thesis
    by (intro conjI)
qed

theorem Read_window_positioning_witness:
  "Read (handle_100\<lparr>buffer_available := 1, buffer_idx := 9, file_offset := 9,
                     buffer_end := 10\<rparr>) 3 2 [] =
     Inr (handle_100\<lparr>buffer_available := 5, buffer_idx := 5, file_offset := 5,
                     buffer_end := 10\<rparr>,
          [BufferCopy 0 2 3])
   \<and> Read (handle_100\<lparr>buffer_available := 1, buffer_idx := 9, file_offset := 9,
                       buffer_end := 10\<rparr>) 0 50 [] =
     Inr (handle_100\<lparr>buffer_available := 0, buffer_idx := 0, file_offset := 50,
                     buffer_end := 10\<rparr>, [])
   \<and> Read (handle_100\<lparr>buffer_available := 1, buffer_idx := 9, file_offset := 9,
                       buffer_end := 10\<rparr>) 11 5 [] =
     Read_loop 5 (handle_100\<lparr>buffer_available := 5, buffer_idx := 5, file_offset := 5,
                              buffer_end := 10\<rparr>) 11 0 []
   \<and> Read_loop 2 (handle_100\<lparr>buffer_available := 8, buffer_idx := 2, file_offset := 2,
                                buffer_end := 10\<rparr>) 3 7 [] =
     Inr (handle_100\<lparr>buffer_available := 5, buffer_idx := 5, file_offset := 5,
                     buffer_end := 10\<rparr>,
          [BufferCopy 7 2 3])"
  using Read_window_positioning [where hfh = "handle_100\<lparr>buffer_available := 1,
        buffer_idx := 9, file_offset := 9, buffer_end := 10\<rparr>"
      and location = 2 and nr_bytes = 3 and trace = "[]", THEN conjunct2]
    Read_window_positioning [where hfh = "handle_100\<lparr>buffer_available := 1,
        buffer_idx := 9, file_offset := 9, buffer_end := 10\<rparr>"
      and location = 50 and nr_bytes = 0 and trace = "[]", THEN conjunct2]
    Read_window_positioning [where hfh = "handle_100\<lparr>buffer_available := 1,
        buffer_idx := 9, file_offset := 9, buffer_end := 10\<rparr>"
      and location = 5 and nr_bytes = 11 and trace = "[]", THEN conjunct1]
    Read_window_positioning [where h = "handle_100\<lparr>buffer_available := 8,
        buffer_idx := 2, file_offset := 2, buffer_end := 10\<rparr>"
      and offset = 2 and to_read = 3 and buffer_offset = 7 and ?trace0.0 = "[]",
      THEN conjunct2, THEN conjunct2, THEN conjunct2]
  by (simp add: handle_100_def blob_100_def any_range_def FILE_FLAGS_DIRECT_IO_def
      buffer_invariant_def Read_loop_done)

text \<open>
  C3. The implicit-offset read clamps the request to \<open>length - file_offset\<close>, computed in
  unsigned 64-bit arithmetic. After a seek past the end of the file the difference wraps
  around to a huge value and nothing is clamped: on a 100-byte blob, after
  \<^verbatim>\<open>Seek(handle, 120)\<close>, a read of 5 bytes fetches the range \<open>[120, 130)\<close> beyond the end
  of the file and returns 5.
\<close>

theorem Read_implicit_past_end:
  "Read_implicit (Seek handle_100 120) 5 [] =
     Inr (5,
          handle_100\<lparr>buffer_available := 5, buffer_idx := 5, file_offset := 125,
                     buffer_start := 120, buffer_end := 130\<rparr>,
          [RangeFetch 120 10 Read_buffer, BufferCopy 0 0 5])"
  by (simp add: handle_100_def blob_100_def any_range_def FILE_FLAGS_DIRECT_IO_def
      Read_implicit_def Seek_def Read_def Read_loop.simps copy_from_buffer_def ReadRange_def
      read_buffer_access_def word_less_def word_le_def min_def)

text \<open>The count that the implicit-offset read returns is always the clamped request.\<close>

lemma Read_implicit_clamps:
  assumes "Read_implicit hfh nr_bytes trace = Inr (n, hfh', trace')"
  shows "n = min (length_hfh hfh - file_offset hfh) nr_bytes"
  using assms by (auto simp: Read_implicit_def Let_def split: sum.splits)
section \<open>Properties of credential resolution\<close>

lemma embedded_account_name_match:
  assumes "embedded_account_name cs = Some acct"
  shows "ConnectionStringMatchStorageAccountName cs acct = Inr True"
proof (cases "acct = []")
  case True
  then show ?thesis
    by (simp add: ConnectionStringMatchStorageAccountName_def)
next
  case False
  from assms obtain pos where pos: "str_find cs ''AccountName='' 0 = Some pos"
    and acct: "acct = takeWhile (\<lambda>c. c \<noteq> CHR '';'') (drop (pos + 12) cs)"
    by (auto simp: embedded_account_name_def split: option.splits)
  have "take (length acct) (drop (pos + 12) cs) = acct"
    unfolding acct by (rule takeWhile_eq_take [symmetric])
  with False pos show ?thesis
    by (simp add: ConnectionStringMatchStorageAccountName_def substr_def)
qed

lemma config_connection_string:
  assumes "provider secret = ''config''"
    and "secret_map secret ''connection_string'' = Some (Varchar cs)"
    and "GetTransportOptions_secret env opener secret = Inr t"
  shows "GetStorageAccountClient_secret env opener secret acct ep =
         (case ConnectionStringMatchStorageAccountName cs acct of
            Inl e \<Rightarrow> Inl e
          | Inr matches \<Rightarrow>
              if matches
              then Inr (CreateFromConnectionString cs (ToBlobClientOptions t (GetHttpState opener)))
              else Inl (InvalidInputException (Connection_string_mismatch acct)))"
  using assms
  by (simp add: GetStorageAccountClient_secret_def GetStorageAccountClientFromConfigProvider_def
      TryGetValue_def IsNull_def ToString_def split: sum.splits)

lemma fallback_connection_string_used:
  assumes "azure_storage_connection_string opener = Some cs" and "cs \<noteq> []"
    and "GetTransportOptions_opener env opener = Inr t"
    and "ConnectionStringMatchStorageAccountName cs acct = Inr True"
  shows "GetStorageAccountClient env opener acct ep =
         Inr (CreateFromConnectionString cs (ToBlobClientOptions t (GetHttpState opener)))"
  using assms
  by (simp add: GetStorageAccountClient_def TryGetCurrentSetting_def Let_def)

lemma fallback_connection_string_invalid:
  assumes "azure_storage_connection_string opener = Some cs" and "cs \<noteq> []"
    and "GetTransportOptions_opener env opener = Inr t"
    and "ConnectionStringMatchStorageAccountName cs acct = Inl e"
  shows "GetStorageAccountClient env opener acct ep = Inl e"
  using assms
  by (simp add: GetStorageAccountClient_def TryGetCurrentSetting_def Let_def)

lemma GetTransportOptions_opener_connection_string:
  "GetTransportOptions_opener env (opener\<lparr>azure_storage_connection_string := v\<rparr>)
   = GetTransportOptions_opener env opener"
  by (simp add: GetTransportOptions_opener_def)

lemma fallback_connection_string_skipped:
  assumes "azure_storage_connection_string opener = Some cs"
    and "ConnectionStringMatchStorageAccountName cs acct = Inr False"
  shows "GetStorageAccountClient env opener acct ep =
         GetStorageAccountClient env (opener\<lparr>azure_storage_connection_string := None\<rparr>) acct ep"
proof (cases "GetTransportOptions_opener env opener")
  case (Inl e)
  then show ?thesis
    by (simp add: GetStorageAccountClient_def GetTransportOptions_opener_connection_string)
next
  case (Inr t)
  have skip: "(if cs \<noteq> [] then ConnectionStringMatchStorageAccountName cs acct else Inr False)
              = Inr False"
    by (simp add: assms(2))
  from Inr show ?thesis
    by (simp add: GetStorageAccountClient_def GetTransportOptions_opener_connection_string
        TryGetCurrentSetting_def Let_def assms(1) skip GetHttpState_def
        cong: sum.case_cong if_cong)
qed

lemma mismatch_cases:
  assumes "acct \<noteq> []"
  shows "ConnectionStringMatchStorageAccountName cs acct =
         (case str_find cs ''AccountName='' 0 of
            None \<Rightarrow> Inl (InvalidInputException Invalid_connection_string)
          | Some pos \<Rightarrow> Inr (substr cs (pos + 12) (length acct) = acct))"
  using assms by (simp add: ConnectionStringMatchStorageAccountName_def)

text \<open>
  C8. With an account name requested in the URL: when a \<open>config\<close> secret carries a
  connection string, a string whose embedded account name is the requested one is used, a
  string whose text after \<open>AccountName=\<close> does not begin with the requested name fails
  with the mismatch error, and a string without \<open>AccountName=\<close> fails as invalid. The
  session-configuration fallback uses the string and rejects an invalid one in the same way,
  but a string that does not begin with the requested name is skipped there: the resolution
  goes on exactly as if no connection string were set. (Transport options that cannot be
  built fail before any of this.)
\<close>

theorem connection_string_validation:
  "acct \<noteq> [] \<longrightarrow>
     (provider secret = ''config''
        \<and> secret_map secret ''connection_string'' = Some (Varchar cs)
        \<and> GetTransportOptions_secret env opener secret = Inr t \<longrightarrow>
      (embedded_account_name cs = Some acct \<longrightarrow>
         GetStorageAccountClient_secret env opener secret acct ep =
           Inr (CreateFromConnectionString cs (ToBlobClientOptions t (GetHttpState opener))))
      \<and> (str_find cs ''AccountName='' 0 = Some pos
           \<and> substr cs (pos + 12) (length acct) \<noteq> acct \<longrightarrow>
         GetStorageAccountClient_secret env opener secret acct ep =
           Inl (InvalidInputException (Connection_string_mismatch acct)))
      \<and> (str_find cs ''AccountName='' 0 = None \<longrightarrow>
         GetStorageAccountClient_secret env opener secret acct ep =
           Inl (InvalidInputException Invalid_connection_string)))
     \<and> (azure_storage_connection_string opener = Some cs \<and> cs \<noteq> []
        \<and> GetTransportOptions_opener env opener = Inr t' \<longrightarrow>
      (embedded_account_name cs = Some acct \<longrightarrow>
         GetStorageAccountClient env opener acct ep =
           Inr (CreateFromConnectionString cs (ToBlobClientOptions t' (GetHttpState opener))))
      \<and> (str_find cs ''AccountName='' 0 = Some pos
           \<and> substr cs (pos + 12) (length acct) \<noteq> acct \<longrightarrow>
         GetStorageAccountClient env opener acct ep =
           GetStorageAccountClient env (opener\<lparr>azure_storage_connection_string := None\<rparr>)
             acct ep)
      \<and> (str_find cs ''AccountName='' 0 = None \<longrightarrow>
         GetStorageAccountClient env opener acct ep =
           Inl (InvalidInputException Invalid_connection_string)))"
proof (intro impI conjI)
  assume a: "acct \<noteq> []"
  {
    assume c: "provider secret = ''config''
        \<and> secret_map secret ''connection_string'' = Some (Varchar cs)
        \<and> GetTransportOptions_secret env opener secret = Inr t"
    then have r: "GetStorageAccountClient_secret env opener secret acct ep =
         (case ConnectionStringMatchStorageAccountName cs acct of
            Inl e \<Rightarrow> Inl e
          | Inr matches \<Rightarrow>
              if matches
              then Inr (CreateFromConnectionString cs (ToBlobClientOptions t (GetHttpState opener)))
              else Inl (InvalidInputException (Connection_string_mismatch acct)))"
      using config_connection_string by blast
    {
      assume "embedded_account_name cs = Some acct"
      then show "GetStorageAccountClient_secret env opener secret acct ep =
           Inr (CreateFromConnectionString cs (ToBlobClientOptions t (GetHttpState opener)))"
        by (simp add: r embedded_account_name_match)
    }
    {
      assume "str_find cs ''AccountName='' 0 = Some pos
           \<and> substr cs (pos + 12) (length acct) \<noteq> acct"
      then show "GetStorageAccountClient_secret env opener secret acct ep =
           Inl (InvalidInputException (Connection_string_mismatch acct))"
        by (simp add: r mismatch_cases [OF a])
    }
    {
      assume "str_find cs ''AccountName='' 0 = None"
      then show "GetStorageAccountClient_secret env opener secret acct ep =
           Inl (InvalidInputException Invalid_connection_string)"
        by (simp add: r mismatch_cases [OF a])
    }
  }
  {
    assume c: "azure_storage_connection_string opener = Some cs \<and> cs \<noteq> []
        \<and> GetTransportOptions_opener env opener = Inr t'"
    {
      assume "embedded_account_name cs = Some acct"
      with c show "GetStorageAccountClient env opener acct ep =
           Inr (CreateFromConnectionString cs (ToBlobClientOptions t' (GetHttpState opener)))"
        by (simp add: fallback_connection_string_used embedded_account_name_match)
    }
    {
      assume "str_find cs ''AccountName='' 0 = Some pos
           \<and> substr cs (pos + 12) (length acct) \<noteq> acct"
      then have "ConnectionStringMatchStorageAccountName cs acct = Inr False"
        by (simp add: mismatch_cases [OF a])
      with c show "GetStorageAccountClient env opener acct ep =
           GetStorageAccountClient env (opener\<lparr>azure_storage_connection_string := None\<rparr>)
             acct ep"
        by (simp add: fallback_connection_string_skipped)
    }
    {
      assume "str_find cs ''AccountName='' 0 = None"
      then have "ConnectionStringMatchStorageAccountName cs acct
                 = Inl (InvalidInputException Invalid_connection_string)"
        by (simp add: mismatch_cases [OF a])
      with c show "GetStorageAccountClient env opener acct ep =
           Inl (InvalidInputException Invalid_connection_string)"
        by (simp add: fallback_connection_string_invalid)
    }
  }
qed

theorem connection_string_validation_witness:
  "GetStorageAccountClient_secret no_process_env default_opener config_secret_other ''other'' [] =
     Inr (CreateFromConnectionString cs_other
            \<lparr>options_Transport = default_transport, PerOperationPolicies = []\<rparr>)
   \<and> GetStorageAccountClient_secret no_process_env default_opener config_secret_other ''acct'' [] =
     Inl (InvalidInputException (Connection_string_mismatch ''acct''))
   \<and> GetStorageAccountClient no_process_env opener_cs_other ''other'' [] =
     Inr (CreateFromConnectionString cs_other
            \<lparr>options_Transport = default_transport, PerOperationPolicies = []\<rparr>)
   \<and> GetStorageAccountClient no_process_env opener_cs_other ''acct'' [] =
     GetStorageAccountClient no_process_env
       (opener_cs_other\<lparr>azure_storage_connection_string := None\<rparr>) ''acct'' []"
  using connection_string_validation [where acct = "''other''" and secret = config_secret_other
      and cs = cs_other and env = no_process_env and opener = default_opener
      and t = default_transport and ep = "[]" and pos = 0]
    connection_string_validation [where acct = "''acct''" and secret = config_secret_other
      and cs = cs_other and env = no_process_env and opener = default_opener
      and t = default_transport and ep = "[]" and pos = 0]
    connection_string_validation [where acct = "''other''" and cs = cs_other
      and env = no_process_env and opener = opener_cs_other
      and t' = default_transport and ep = "[]" and pos = 0]
    connection_string_validation [where acct = "''acct''" and cs = cs_other
      and env = no_process_env and opener = opener_cs_other
      and t' = default_transport and ep = "[]" and pos = 0]
  by (simp add: config_secret_other_def cs_other_def opener_cs_other_def default_opener_def
      no_process_env_def default_transport_def embedded_account_name_def str_find_def substr_def
      GetTransportOptions_secret_def GetTransportOptions_opener_def GetTransportOptions_def
      TryGetCurrentSetting_def TryGetValue_def IsNull_def ToString_def non_empty_def
      GetHttpState_def ToBlobClientOptions_def)

text \<open>
  The fallback with the connection string of the account \<open>other\<close> and the URL account
  \<open>acct\<close>: no error, an anonymous client for \<open>acct\<close>.
\<close>

theorem fallback_connection_string_mismatch_counterexample:
  "embedded_account_name cs_other = Some ''other''
   \<and> GetStorageAccountClient no_process_env opener_cs_other ''acct'' [] =
     Inr (BlobServiceClient_anonymous ''https://acct.blob.core.windows.net''
            \<lparr>options_Transport = default_transport, PerOperationPolicies = []\<rparr>)"
  by (simp add: cs_other_def opener_cs_other_def default_opener_def
      no_process_env_def default_transport_def embedded_account_name_def str_find_def substr_def
      GetStorageAccountClient_def ConnectionStringMatchStorageAccountName_def
      GetTransportOptions_opener_def GetTransportOptions_def
      TryGetCurrentSetting_def non_empty_def DEFAULT_ENDPOINT_def
      GetHttpState_def ToBlobClientOptions_def)

lemma service_principal_unfold:
  assumes "provider secret = ''service_principal''"
    and "GetTransportOptions_secret env opener secret = Inr t"
  shows "GetStorageAccountClient_secret env opener secret acct ep =
     (case TryGetValue_error_on_missing secret ''tenant_id'' of
        Inl e \<Rightarrow> Inl e
      | Inr tenant_id \<Rightarrow>
     (case TryGetValue_error_on_missing secret ''client_id'' of
        Inl e \<Rightarrow> Inl e
      | Inr client_id \<Rightarrow>
     (case CreateClientCredential (ToString tenant_id) (ToString client_id)
             (if IsNull (TryGetValue secret ''client_secret'') then []
              else ToString (TryGetValue secret ''client_secret''))
             (if IsNull (TryGetValue secret ''client_certificate_path'') then []
              else ToString (TryGetValue secret ''client_certificate_path'')) t of
        Inl e \<Rightarrow> Inl e
      | Inr token_credential \<Rightarrow>
     (case AccountUrl secret acct ep of
        Inl e \<Rightarrow> Inl e
      | Inr account_url \<Rightarrow>
          Inr (BlobServiceClient_credential account_url token_credential
                 (ToBlobClientOptions t (GetHttpState opener)))))))"
  using assms
  by (simp add: GetStorageAccountClient_secret_def
      GetStorageAccountClientFromServicePrincipalProvider_def Let_def cong: sum.case_cong)

lemma service_principal_fails:
  assumes "provider secret = ''service_principal''"
    and "secret_map secret ''tenant_id'' = None \<or> secret_map secret ''client_id'' = None
         \<or> (IsNull (TryGetValue secret ''client_secret'')
               \<or> ToString (TryGetValue secret ''client_secret'') = [])
            \<and> (IsNull (TryGetValue secret ''client_certificate_path'')
               \<or> ToString (TryGetValue secret ''client_certificate_path'') = [])"
  shows "\<exists>e. GetStorageAccountClient_secret env opener secret acct ep = Inl e"
proof (cases "GetTransportOptions_secret env opener secret")
  case (Inl e)
  with assms(1) show ?thesis
    by (simp add: GetStorageAccountClient_secret_def
      GetStorageAccountClientFromServicePrincipalProvider_def)
next
  case (Inr t)
  from assms(2) show ?thesis
    unfolding service_principal_unfold [OF assms(1) Inr]
    by (auto simp: TryGetValue_error_on_missing_def CreateClientCredential_def
        split: option.splits sum.splits)
qed

text \<open>
  C9. Resolving a \<open>service_principal\<close> secret, once its transport options are built: a
  missing \<open>tenant_id\<close> fails with the missing-key error, then a missing \<open>client_id\<close>
  does; with both present and neither a client secret nor a certificate path given (absent,
  \<^verbatim>\<open>NULL\<close> or empty), it fails with the invalid-input error of
  \<^verbatim>\<open>CreateClientCredential\<close>; a client secret gives a client-secret credential, and a
  certificate path without a client secret gives a client-certificate credential. In every
  case where a tenant id, a client id or both credentials are missing, the result is an error
  and no client.
\<close>

theorem service_principal_requirements:
  "provider secret = ''service_principal'' \<longrightarrow>
     (GetTransportOptions_secret env opener secret = Inr t \<longrightarrow>
        (secret_map secret ''tenant_id'' = None \<longrightarrow>
           GetStorageAccountClient_secret env opener secret acct ep =
             Inl (InternalException (Missing_secret_key ''tenant_id'')))
        \<and> (secret_map secret ''tenant_id'' = Some tenant
             \<and> secret_map secret ''client_id'' = None \<longrightarrow>
           GetStorageAccountClient_secret env opener secret acct ep =
             Inl (InternalException (Missing_secret_key ''client_id'')))
        \<and> (secret_map secret ''tenant_id'' = Some tenant
             \<and> secret_map secret ''client_id'' = Some client
             \<and> (IsNull (TryGetValue secret ''client_secret'')
                  \<or> ToString (TryGetValue secret ''client_secret'') = [])
             \<and> (IsNull (TryGetValue secret ''client_certificate_path'')
                  \<or> ToString (TryGetValue secret ''client_certificate_path'') = []) \<longrightarrow>
           GetStorageAccountClient_secret env opener secret acct ep =
             Inl (InvalidInputException Missing_client_secret_or_certificate))
        \<and> (secret_map secret ''tenant_id'' = Some tenant
             \<and> secret_map secret ''client_id'' = Some client
             \<and> secret_map secret ''client_secret'' = Some (Varchar client_secret)
             \<and> client_secret \<noteq> []
             \<and> AccountUrl secret acct ep = Inr account_url \<longrightarrow>
           GetStorageAccountClient_secret env opener secret acct ep =
             Inr (BlobServiceClient_credential account_url
                    (ClientSecretCredential (ToString tenant) (ToString client) client_secret t)
                    (ToBlobClientOptions t (GetHttpState opener))))
        \<and> (secret_map secret ''tenant_id'' = Some tenant
             \<and> secret_map secret ''client_id'' = Some client
             \<and> (IsNull (TryGetValue secret ''client_secret'')
                  \<or> ToString (TryGetValue secret ''client_secret'') = [])
             \<and> secret_map secret ''client_certificate_path'' = Some (Varchar certificate_path)
             \<and> certificate_path \<noteq> []
             \<and> AccountUrl secret acct ep = Inr account_url \<longrightarrow>
           GetStorageAccountClient_secret env opener secret acct ep =
             Inr (BlobServiceClient_credential account_url
                    (ClientCertificateCredential (ToString tenant) (ToString client)
                       certificate_path t)
                    (ToBlobClientOptions t (GetHttpState opener)))))
     \<and> (secret_map secret ''tenant_id'' = None \<or> secret_map secret ''client_id'' = None
          \<or> (IsNull (TryGetValue secret ''client_secret'')
                \<or> ToString (TryGetValue secret ''client_secret'') = [])
             \<and> (IsNull (TryGetValue secret ''client_certificate_path'')
                \<or> ToString (TryGetValue secret ''client_certificate_path'') = []) \<longrightarrow>
        (\<exists>e. GetStorageAccountClient_secret env opener secret acct ep = Inl e))"
proof (intro impI conjI)
  assume p: "provider secret = ''service_principal''"
  show "\<exists>e. GetStorageAccountClient_secret env opener secret acct ep = Inl e"
    if "secret_map secret ''tenant_id'' = None \<or> secret_map secret ''client_id'' = None
          \<or> (IsNull (TryGetValue secret ''client_secret'')
                \<or> ToString (TryGetValue secret ''client_secret'') = [])
             \<and> (IsNull (TryGetValue secret ''client_certificate_path'')
                \<or> ToString (TryGetValue secret ''client_certificate_path'') = [])"
    using service_principal_fails [OF p that] .
  assume t: "GetTransportOptions_secret env opener secret = Inr t"
  note u = service_principal_unfold [OF p t]
  show "GetStorageAccountClient_secret env opener secret acct ep =
             Inl (InternalException (Missing_secret_key ''tenant_id''))"
    if "secret_map secret ''tenant_id'' = None"
    using that by (simp add: u TryGetValue_error_on_missing_def)
  show "GetStorageAccountClient_secret env opener secret acct ep =
             Inl (InternalException (Missing_secret_key ''client_id''))"
    if "secret_map secret ''tenant_id'' = Some tenant
             \<and> secret_map secret ''client_id'' = None"
    using that by (simp add: u TryGetValue_error_on_missing_def)
  show "GetStorageAccountClient_secret env opener secret acct ep =
             Inl (InvalidInputException Missing_client_secret_or_certificate)"
    if "secret_map secret ''tenant_id'' = Some tenant
             \<and> secret_map secret ''client_id'' = Some client
             \<and> (IsNull (TryGetValue secret ''client_secret'')
                  \<or> ToString (TryGetValue secret ''client_secret'') = [])
             \<and> (IsNull (TryGetValue secret ''client_certificate_path'')
                  \<or> ToString (TryGetValue secret ''client_certificate_path'') = [])"
    using that by (auto simp: u TryGetValue_error_on_missing_def CreateClientCredential_def)
  show "GetStorageAccountClient_secret env opener secret acct ep =
             Inr (BlobServiceClient_credential account_url
                    (ClientSecretCredential (ToString tenant) (ToString client) client_secret t)
                    (ToBlobClientOptions t (GetHttpState opener)))"
    if "secret_map secret ''tenant_id'' = Some tenant
             \<and> secret_map secret ''client_id'' = Some client
             \<and> secret_map secret ''client_secret'' = Some (Varchar client_secret)
             \<and> client_secret \<noteq> []
             \<and> AccountUrl secret acct ep = Inr account_url"
    using that
    by (simp add: u TryGetValue_error_on_missing_def CreateClientCredential_def
        TryGetValue_def IsNull_def ToString_def)
  show "GetStorageAccountClient_secret env opener secret acct ep =
             Inr (BlobServiceClient_credential account_url
                    (ClientCertificateCredential (ToString tenant) (ToString client)
                       certificate_path t)
                    (ToBlobClientOptions t (GetHttpState opener)))"
    if "secret_map secret ''tenant_id'' = Some tenant
             \<and> secret_map secret ''client_id'' = Some client
             \<and> (IsNull (TryGetValue secret ''client_secret'')
                  \<or> ToString (TryGetValue secret ''client_secret'') = [])
             \<and> secret_map secret ''client_certificate_path'' = Some (Varchar certificate_path)
             \<and> certificate_path \<noteq> []
             \<and> AccountUrl secret acct ep = Inr account_url"
  proof -
    from that have "TryGetValue secret ''client_certificate_path'' = Varchar certificate_path"
      by (simp add: TryGetValue_def)
    with that show ?thesis
      by (auto simp: u TryGetValue_error_on_missing_def CreateClientCredential_def
          IsNull_def ToString_def)
  qed
qed

theorem service_principal_requirements_witness:
  "GetStorageAccountClient_secret no_process_env default_opener
       (principal_secret\<lparr>secret_map := (secret_map principal_secret)(''tenant_id'' := None)\<rparr>)
       [] [] =
     Inl (InternalException (Missing_secret_key ''tenant_id''))
   \<and> GetStorageAccountClient_secret no_process_env default_opener
       (principal_secret\<lparr>secret_map := (secret_map principal_secret)(''client_id'' := None)\<rparr>)
       [] [] =
     Inl (InternalException (Missing_secret_key ''client_id''))
   \<and> GetStorageAccountClient_secret no_process_env default_opener principal_secret [] [] =
     Inl (InvalidInputException Missing_client_secret_or_certificate)
   \<and> GetStorageAccountClient_secret no_process_env default_opener
       (principal_secret\<lparr>secret_map :=
          (secret_map principal_secret)(''client_secret'' \<mapsto> Varchar ''s3cret'')\<rparr>)
       [] [] =
     Inr (BlobServiceClient_credential ''https://acct.blob.core.windows.net''
            (ClientSecretCredential ''t1'' ''c1'' ''s3cret'' default_transport)
            \<lparr>options_Transport = default_transport, PerOperationPolicies = []\<rparr>)
   \<and> GetStorageAccountClient_secret no_process_env default_opener
       (principal_secret\<lparr>secret_map :=
          (secret_map principal_secret)(''client_certificate_path'' \<mapsto> Varchar ''/c.pem'')\<rparr>)
       [] [] =
     Inr (BlobServiceClient_credential ''https://acct.blob.core.windows.net''
            (ClientCertificateCredential ''t1'' ''c1'' ''/c.pem'' default_transport)
            \<lparr>options_Transport = default_transport, PerOperationPolicies = []\<rparr>)"
  using service_principal_requirements [where env = no_process_env and opener = default_opener
      and t = default_transport and acct = "[]" and ep = "[]"
      and secret = "principal_secret\<lparr>secret_map :=
          (secret_map principal_secret)(''tenant_id'' := None)\<rparr>"]
    service_principal_requirements [where env = no_process_env and opener = default_opener
      and t = default_transport and acct = "[]" and ep = "[]" and tenant = "Varchar ''t1''"
      and secret = "principal_secret\<lparr>secret_map :=
          (secret_map principal_secret)(''client_id'' := None)\<rparr>"]
    service_principal_requirements [where env = no_process_env and opener = default_opener
      and t = default_transport and acct = "[]" and ep = "[]" and tenant = "Varchar ''t1''"
      and client = "Varchar ''c1''" and secret = principal_secret]
    service_principal_requirements [where env = no_process_env and opener = default_opener
      and t = default_transport and acct = "[]" and ep = "[]" and tenant = "Varchar ''t1''"
      and client = "Varchar ''c1''" and client_secret = "''s3cret''"
      and account_url = "''https://acct.blob.core.windows.net''"
      and secret = "principal_secret\<lparr>secret_map :=
          (secret_map principal_secret)(''client_secret'' \<mapsto> Varchar ''s3cret'')\<rparr>"]
    service_principal_requirements [where env = no_process_env and opener = default_opener
      and t = default_transport and acct = "[]" and ep = "[]" and tenant = "Varchar ''t1''"
      and client = "Varchar ''c1''" and certificate_path = "''/c.pem''"
      and account_url = "''https://acct.blob.core.windows.net''"
      and secret = "principal_secret\<lparr>secret_map :=
          (secret_map principal_secret)(''client_certificate_path'' \<mapsto> Varchar ''/c.pem'')\<rparr>"]
  by (simp add: principal_secret_def default_opener_def
      no_process_env_def default_transport_def
      GetTransportOptions_secret_def GetTransportOptions_def
      TryGetCurrentSetting_def TryGetValue_def IsNull_def ToString_def non_empty_def
      GetHttpState_def ToBlobClientOptions_def AccountUrl_def KVSStorageAccount_def
      KVSEndpoint_def TryGetValue_error_on_missing_def DEFAULT_ENDPOINT_def)

section \<open>Properties of the context cache\<close>

lemma CreateStorageContext_result:
  assumes "ConnectToStorageAccount env opener url u = Inr client"
  shows "CreateStorageContext env opener url u st =
         Inr (fresh st,
              st\<lparr>objects := (objects st)(fresh st \<mapsto>
                     new_AzureContextState client (ParseAzureReadOptions opener)),
                 fresh := Suc (fresh st)\<rparr>)"
  using assms by (simp add: CreateStorageContext_def make_shared_def)

lemma CreateStorageContext_cases:
  "CreateStorageContext env opener url u st =
     (case ConnectToStorageAccount env opener url u of
        Inl e \<Rightarrow> Inl e
      | Inr client \<Rightarrow>
         Inr (fresh st,
              st\<lparr>objects := (objects st)(fresh st \<mapsto>
                     new_AzureContextState client (ParseAzureReadOptions opener)),
                 fresh := Suc (fresh st)\<rparr>))"
  by (simp add: CreateStorageContext_def make_shared_def split: sum.splits)

lemma cache_hit:
  assumes "caches opener" and "client_context opener"
    and "map_of (registered_state st) (storage_account_name u) = Some r"
    and "objects st r = Some ctx" and "IsValid ctx"
  shows "GetOrCreateStorageContext env opener url u st = Inr (r, st)"
  using assms
  by (auto simp: GetOrCreateStorageContext_def caches_def split: option.splits)

lemma cache_miss:
  assumes "caches opener" and "client_context opener"
    and "map_of (registered_state st) (storage_account_name u) = None"
    and "ConnectToStorageAccount env opener url u = Inr client"
  shows "GetOrCreateStorageContext env opener url u st =
         Inr (fresh st,
              st\<lparr>objects := (objects st)(fresh st \<mapsto>
                     new_AzureContextState client (ParseAzureReadOptions opener)),
                 fresh := Suc (fresh st),
                 registered_state := registered_state st @ [(storage_account_name u, fresh st)]\<rparr>)"
  using assms
  by (auto simp: GetOrCreateStorageContext_def caches_def CreateStorageContext_result
      split: option.splits)

lemma cache_invalid:
  assumes "caches opener" and "client_context opener"
    and "map_of (registered_state st) (storage_account_name u) = Some r"
    and "objects st r = Some ctx" and "\<not> IsValid ctx"
    and "ConnectToStorageAccount env opener url u = Inr client"
  shows "GetOrCreateStorageContext env opener url u st =
         Inr (fresh st,
              st\<lparr>objects := (objects st)(fresh st \<mapsto>
                     new_AzureContextState client (ParseAzureReadOptions opener)),
                 fresh := Suc (fresh st),
                 registered_state :=
                   AList.update (storage_account_name u) (fresh st) (registered_state st)\<rparr>)"
  using assms
  by (auto simp: GetOrCreateStorageContext_def caches_def CreateStorageContext_result
      split: option.splits)

lemma cache_disabled:
  assumes "\<not> caches opener"
    and "ConnectToStorageAccount env opener url u = Inr client"
  shows "GetOrCreateStorageContext env opener url u st =
         Inr (fresh st,
              st\<lparr>objects := (objects st)(fresh st \<mapsto>
                     new_AzureContextState client (ParseAzureReadOptions opener)),
                 fresh := Suc (fresh st)\<rparr>)"
  using assms
  by (auto simp: GetOrCreateStorageContext_def caches_def CreateStorageContext_result)

text \<open>After a successful lookup with caching, the cache holds the returned object, valid.\<close>

lemma cached_after_lookup:
  assumes "caches opener"
    and "GetOrCreateStorageContext env opener url u st = Inr (r, st1)"
  shows "map_of (registered_state st1) (storage_account_name u) = Some r
         \<and> (\<exists>ctx. objects st1 r = Some ctx \<and> IsValid ctx)"
proof -
  from assms have cc: "client_context opener"
    by (auto simp: GetOrCreateStorageContext_def caches_def Let_def split: if_splits option.splits)
  show ?thesis
  proof (cases "map_of (registered_state st) (storage_account_name u)")
    case None
    with assms cc show ?thesis
      by (auto simp: GetOrCreateStorageContext_def caches_def CreateStorageContext_cases
          new_AzureContextState_def IsValid_def map_add_def
          split: option.splits sum.splits)
  next
    case (Some c)
    note hit = Some
    show ?thesis
    proof (cases "objects st c")
      case None
      with assms cc hit show ?thesis
        by (auto simp: GetOrCreateStorageContext_def caches_def split: option.splits)
    next
      case (Some ctx)
      show ?thesis
      proof (cases "IsValid ctx")
        case True
        from cache_hit [OF assms(1) cc hit Some True, of env url] assms(2) hit Some True
        show ?thesis by auto
      next
        case False
        with assms cc hit Some show ?thesis
          by (auto simp: GetOrCreateStorageContext_def caches_def CreateStorageContext_cases
              new_AzureContextState_def IsValid_def update_conv'
              split: option.splits sum.splits)
      qed
    qed
  qed
qed

lemma second_lookup_same:
  assumes "caches opener"
    and "GetOrCreateStorageContext env opener url u st = Inr (r, st1)"
    and "caches opener2" and "client_context opener2"
    and "storage_account_name u2 = storage_account_name u"
  shows "GetOrCreateStorageContext env2 opener2 url2 u2 st1 = Inr (r, st1)"
proof -
  from cached_after_lookup [OF assms(1,2)] obtain ctx
    where "map_of (registered_state st1) (storage_account_name u2) = Some r"
      and "objects st1 r = Some ctx" and "IsValid ctx"
    using assms(5) by auto
  then show ?thesis
    using assms(3,4) by (rule cache_hit [rotated 2])
qed

lemma session_end_invalidates:
  assumes "map_of (registered_state st) k = Some r" and "objects st r = Some ctx"
  shows "map_of (registered_state (session_end st)) k = Some r
         \<and> objects (session_end st) r = Some (QueryEnd ctx)
         \<and> \<not> IsValid (QueryEnd ctx)
         \<and> fresh (session_end st) = fresh st"
proof -
  from assms(1) have "(k, r) \<in> set (registered_state st)"
    by (rule map_of_SomeD)
  then have "r \<in> snd ` set (registered_state st)"
    by force
  with assms show ?thesis
    by (simp add: session_end_def QueryEnd_def IsValid_def)
qed

lemma list_all_update:
  "list_all P al \<Longrightarrow> P (k, v) \<Longrightarrow> list_all P (AList.update k v al)"
  by (induction al) auto

lemma session_ok_lookup:
  assumes "session_ok st" and "caches opener"
    and "GetOrCreateStorageContext env opener url u st = Inr (r, st1)"
  shows "r < fresh st1 \<and> session_ok st1"
proof -
  from assms(2,3) have cc: "client_context opener"
    by (auto simp: GetOrCreateStorageContext_def caches_def Let_def split: if_splits option.splits)
  have weaken: "list_all (\<lambda>(k, r). r < Suc (fresh st)) (registered_state st)"
    using assms(1) unfolding session_ok_def list_all_iff by auto
  show ?thesis
  proof (cases "map_of (registered_state st) (storage_account_name u)")
    case None
    with assms(2,3) cc weaken show ?thesis
      by (auto simp: GetOrCreateStorageContext_def caches_def CreateStorageContext_cases
          session_ok_def split: option.splits sum.splits)
  next
    case (Some c)
    note hit = Some
    then have "(storage_account_name u, c) \<in> set (registered_state st)"
      by (rule map_of_SomeD)
    with assms(1) have c: "c < fresh st"
      unfolding session_ok_def list_all_iff by auto
    show ?thesis
    proof (cases "objects st c")
      case None
      with assms cc hit show ?thesis
        by (auto simp: GetOrCreateStorageContext_def caches_def split: option.splits)
    next
      case (Some ctx)
      show ?thesis
      proof (cases "IsValid ctx")
        case True
        from cache_hit [OF assms(2) cc hit Some True, of env url] assms(1,3) c
        show ?thesis by auto
      next
        case False
        with assms(2,3) cc hit Some weaken show ?thesis
          by (auto simp: GetOrCreateStorageContext_def caches_def CreateStorageContext_cases
              session_ok_def list_all_update
              split: option.splits sum.splits)
      qed
    qed
  qed
qed

lemma lookup_after_session_end:
  assumes "caches opener"
    and "GetOrCreateStorageContext env opener url u st = Inr (r, st1)"
    and "caches opener2" and "client_context opener2"
    and "storage_account_name u2 = storage_account_name u"
    and "ConnectToStorageAccount env2 opener2 url2 u2 = Inr client2"
  shows "GetOrCreateStorageContext env2 opener2 url2 u2 (session_end st1) =
         Inr (fresh st1,
              (session_end st1)
                \<lparr>objects := (objects (session_end st1))(fresh st1 \<mapsto>
                     new_AzureContextState client2 (ParseAzureReadOptions opener2)),
                 fresh := Suc (fresh st1),
                 registered_state :=
                   AList.update (storage_account_name u2) (fresh st1) (registered_state st1)\<rparr>)"
proof -
  from cached_after_lookup [OF assms(1,2)] obtain ctx
    where m: "map_of (registered_state st1) (storage_account_name u2) = Some r"
      and o: "objects st1 r = Some ctx"
    using assms(5) by auto
  from session_end_invalidates [OF m o]
  have "map_of (registered_state (session_end st1)) (storage_account_name u2) = Some r"
    and "objects (session_end st1) r = Some (QueryEnd ctx)"
    and "\<not> IsValid (QueryEnd ctx)"
    and f: "fresh (session_end st1) = fresh st1"
    by simp_all
  from cache_invalid [OF assms(3,4) this(1-3) assms(6)] f
  show ?thesis
    by (simp add: session_end_def)
qed

text \<open>
  C6. With caching (the default) and a client context: a lookup whose account key is
  registered with a valid context returns that very object and leaves the session as it is;
  a lookup whose key is absent, or registered with an invalidated context, builds a context
  through the credential resolver at a new reference and inserts it, or replaces the entry.
  So after one successful lookup a second lookup for the same account key returns the same
  reference, and after the session-end event it returns a new one (the old reference lies
  below it). Without caching every lookup builds a context at a new reference and the
  registered states stay as they were.
\<close>

theorem context_cache:
  "(caches opener \<and> client_context opener
      \<and> map_of (registered_state st) (storage_account_name u) = Some r
      \<and> objects st r = Some ctx \<and> IsValid ctx \<longrightarrow>
    GetOrCreateStorageContext env opener url u st = Inr (r, st))
   \<and> (caches opener \<and> client_context opener
      \<and> map_of (registered_state st) (storage_account_name u) = None
      \<and> ConnectToStorageAccount env opener url u = Inr client \<longrightarrow>
    GetOrCreateStorageContext env opener url u st =
      Inr (fresh st,
           st\<lparr>objects := (objects st)(fresh st \<mapsto>
                  new_AzureContextState client (ParseAzureReadOptions opener)),
              fresh := Suc (fresh st),
              registered_state := registered_state st @ [(storage_account_name u, fresh st)]\<rparr>))
   \<and> (caches opener \<and> client_context opener
      \<and> map_of (registered_state st) (storage_account_name u) = Some r
      \<and> objects st r = Some ctx \<and> \<not> IsValid ctx
      \<and> ConnectToStorageAccount env opener url u = Inr client \<longrightarrow>
    GetOrCreateStorageContext env opener url u st =
      Inr (fresh st,
           st\<lparr>objects := (objects st)(fresh st \<mapsto>
                  new_AzureContextState client (ParseAzureReadOptions opener)),
              fresh := Suc (fresh st),
              registered_state :=
                AList.update (storage_account_name u) (fresh st) (registered_state st)\<rparr>))
   \<and> (caches opener \<and> GetOrCreateStorageContext env opener url u st = Inr (r1, st1)
      \<and> caches opener2 \<and> client_context opener2
      \<and> storage_account_name u2 = storage_account_name u \<longrightarrow>
    GetOrCreateStorageContext env2 opener2 url2 u2 st1 = Inr (r1, st1)
    \<and> (session_ok st \<longrightarrow> r1 < fresh st1 \<and> session_ok st1)
    \<and> (ConnectToStorageAccount env2 opener2 url2 u2 = Inr client2 \<longrightarrow>
       GetOrCreateStorageContext env2 opener2 url2 u2 (session_end st1) =
         Inr (fresh st1,
              (session_end st1)
                \<lparr>objects := (objects (session_end st1))(fresh st1 \<mapsto>
                     new_AzureContextState client2 (ParseAzureReadOptions opener2)),
                 fresh := Suc (fresh st1),
                 registered_state :=
                   AList.update (storage_account_name u2) (fresh st1)
                     (registered_state st1)\<rparr>)))
   \<and> (\<not> caches opener \<and> ConnectToStorageAccount env opener url u = Inr client \<longrightarrow>
    GetOrCreateStorageContext env opener url u st =
      Inr (fresh st,
           st\<lparr>objects := (objects st)(fresh st \<mapsto>
                  new_AzureContextState client (ParseAzureReadOptions opener)),
              fresh := Suc (fresh st)\<rparr>))"
  using cache_hit [of opener st u r ctx env url]
    cache_miss [of opener st u env url client]
    cache_invalid [of opener st u r ctx env url client]
    second_lookup_same [of opener env url u st r1 st1 opener2 u2 env2 url2]
    session_ok_lookup [of st opener env url u r1 st1]
    lookup_after_session_end [of opener env url u st r1 st1 opener2 u2 env2 url2 client2]
    cache_disabled [of opener env url u client st]
  by blast

lemma Connect_acct:
  "ConnectToStorageAccount no_process_env
     (default_opener\<lparr>azure_context_caching := c\<rparr>) url_acct parsed_acct = Inr client_acct"
  by (simp add: ConnectToStorageAccount_def default_opener_def no_secret_def parsed_acct_def
      GetStorageAccountClient_def GetTransportOptions_opener_def GetTransportOptions_def
      TryGetCurrentSetting_def non_empty_def GetHttpState_def ToBlobClientOptions_def
      client_acct_def default_transport_def)

lemma default_opener_caching:
  "default_opener\<lparr>azure_context_caching := Some True\<rparr> = default_opener"
  by (simp add: default_opener_def)

theorem context_cache_witness:
  "GetOrCreateStorageContext no_process_env default_opener url_acct parsed_acct new_session =
     Inr (0, session_acct)
   \<and> GetOrCreateStorageContext no_process_env default_opener url_acct parsed_acct session_acct =
     Inr (0, session_acct)
   \<and> lookup_summary (GetOrCreateStorageContext no_process_env default_opener url_acct
        parsed_acct (session_end session_acct)) =
     Some (1, [(''acct'', 1)], 2, Some False)
   \<and> lookup_summary (GetOrCreateStorageContext no_process_env
        (default_opener\<lparr>azure_context_caching := Some False\<rparr>) url_acct parsed_acct
        new_session) =
     Some (0, [], 1, Some True)"
proof -
  note c = Connect_acct [of "Some True", unfolded default_opener_caching]
  have ok: "caches default_opener" "client_context default_opener"
    "\<not> caches (default_opener\<lparr>azure_context_caching := Some False\<rparr>)"
    by (simp_all add: caches_def default_opener_def)
  have parsed: "storage_account_name parsed_acct = ''acct''"
    by (simp add: parsed_acct_def)
  have ctx: "new_AzureContextState client_acct (ParseAzureReadOptions default_opener)
             = context_acct"
    "new_AzureContextState client_acct
       (ParseAzureReadOptions (default_opener\<lparr>azure_context_caching := Some False\<rparr>))
     = context_acct"
    by (simp_all add: new_AzureContextState_def ParseAzureReadOptions_def default_opener_def
        context_acct_def)
  have first: "GetOrCreateStorageContext no_process_env default_opener url_acct parsed_acct
                 new_session = Inr (0, session_acct)"
    using context_cache [where opener = default_opener and st = new_session
        and u = parsed_acct and env = no_process_env and url = url_acct
        and client = client_acct] ok c
    by (simp add: parsed new_session_def session_acct_def ctx)
  have rest: "GetOrCreateStorageContext no_process_env default_opener url_acct parsed_acct
                 session_acct = Inr (0, session_acct)
    \<and> GetOrCreateStorageContext no_process_env default_opener url_acct parsed_acct
         (session_end session_acct) =
         Inr (fresh session_acct,
              (session_end session_acct)
                \<lparr>objects := (objects (session_end session_acct))(fresh session_acct \<mapsto>
                     new_AzureContextState client_acct (ParseAzureReadOptions default_opener)),
                 fresh := Suc (fresh session_acct),
                 registered_state :=
                   AList.update (storage_account_name parsed_acct) (fresh session_acct)
                     (registered_state session_acct)\<rparr>)"
    using context_cache [where opener = default_opener and st = new_session
        and u = parsed_acct and env = no_process_env and url = url_acct
        and ?r1.0 = 0 and ?st1.0 = session_acct and ?opener2.0 = default_opener
        and ?u2.0 = parsed_acct and ?env2.0 = no_process_env and ?url2.0 = url_acct
        and ?client2.0 = client_acct] ok c first
    by simp
  have off: "GetOrCreateStorageContext no_process_env
        (default_opener\<lparr>azure_context_caching := Some False\<rparr>) url_acct parsed_acct
        new_session =
      Inr (fresh new_session,
           new_session\<lparr>objects := (objects new_session)(fresh new_session \<mapsto>
                  new_AzureContextState client_acct
                    (ParseAzureReadOptions
                       (default_opener\<lparr>azure_context_caching := Some False\<rparr>))),
              fresh := Suc (fresh new_session)\<rparr>)"
    using context_cache [where opener = "default_opener\<lparr>azure_context_caching := Some False\<rparr>"
        and st = new_session and u = parsed_acct and env = no_process_env and url = url_acct
        and client = client_acct] ok Connect_acct [of "Some False"]
    by simp
  have third: "lookup_summary (GetOrCreateStorageContext no_process_env default_opener url_acct
        parsed_acct (session_end session_acct)) =
     Some (1, [(''acct'', 1)], 2, Some False)"
    unfolding rest [THEN conjunct2]
    by (simp add: lookup_summary_def parsed session_acct_def session_end_def QueryEnd_def
        context_acct_def)
  have fourth: "lookup_summary (GetOrCreateStorageContext no_process_env
        (default_opener\<lparr>azure_context_caching := Some False\<rparr>) url_acct parsed_acct
        new_session) =
     Some (0, [], 1, Some True)"
    unfolding off
    by (simp add: lookup_summary_def new_session_def ctx context_acct_def)
  from first rest [THEN conjunct1] third fourth show ?thesis
    by (intro conjI)
qed

section \<open>Properties of the glob driver\<close>

lemma paged_container_page:
  assumes "i < length pages"
  shows "paged_container pages \<lparr>Prefix = p, ContinuationToken = page_token i\<rparr> =
         Some \<lparr>Blobs = pages ! i,
               NextPageToken = (if Suc i < length pages then page_token (Suc i) else None)\<rparr>"
  using assms by (auto simp: paged_container_def page_token_def)

lemma Glob_pages_paged:
  assumes "i < length pages"
  shows "Glob_pages (paged_container pages) url pattern_splits pfx
           \<lparr>Prefix = p, ContinuationToken = page_token i\<rparr> result calls =
         Some (Inr (result @ matching_urls pfx pattern_splits (concat (drop i pages)),
                    calls @ map (\<lambda>j. \<lparr>Prefix = p, ContinuationToken = page_token j\<rparr>)
                              [i..<length pages]))"
  using assms
proof (induction "length pages - i" arbitrary: i result calls)
  case 0
  then show ?case by simp
next
  case (Suc n)
  have m: "matching_urls pfx pattern_splits (xs @ ys) =
           matching_urls pfx pattern_splits xs @ matching_urls pfx pattern_splits ys" for xs ys
    by (simp add: matching_urls_def)
  show ?case
  proof (cases "Suc i < length pages")
    case True
    with Suc.hyps(2) have n: "n = length pages - Suc i"
      by simp
    have d: "drop i pages = pages ! i # drop (Suc i) pages"
      using Suc.prems by (simp add: Cons_nth_drop_Suc)
    have u: "[i..<length pages] = i # [Suc i..<length pages]"
      using Suc.prems by (simp add: upt_conv_Cons)
    have t: "page_token (Suc i) = Some (replicate (Suc i) CHR ''+'')"
      by (simp add: page_token_def)
    show ?thesis
      apply (subst Glob_pages.simps)
      apply (simp only: paged_container_page [OF Suc.prems] option.case if_P [OF True]
          ListBlobsPagedResponse.simps t)
      apply (simp only: t [symmetric] ListBlobsOptions.simps)
      apply (subst Suc.hyps(1) [OF n True])
      apply (simp add: d u m)
      done
  next
    case False
    with Suc.prems have l: "length pages = Suc i"
      by simp
    have d: "drop i pages = [pages ! i]"
      using Suc.prems l by (metis Cons_nth_drop_Suc drop_all le_refl)
    have u: "[i..<length pages] = [i]"
      using l by simp
    show ?thesis
      apply (subst Glob_pages.simps)
      apply (simp only: paged_container_page [OF Suc.prems] option.case if_not_P [OF False]
          ListBlobsPagedResponse.simps)
      apply (simp add: d u)
      done
  qed
qed

lemma first_of_at_None: "first_of_at s chars i = None \<longleftrightarrow> set s \<inter> set chars = {}"
  by (induction s arbitrary: i) auto

lemma find_first_of_None: "find_first_of s chars = None \<longleftrightarrow> set s \<inter> set chars = {}"
  by (simp add: find_first_of_def first_of_at_None)

lemma Glob_no_wildcard:
  assumes "ParseUrl url = Inr u"
    and "GetOrCreateStorageContext env opener url u st = Inr (r, st')"
    and "find_first_of (path u) wildcards = None"
  shows "Glob env service url (Some opener) st = Some (Inr ([url], [], st'))"
  using assms by (simp add: Glob_def)

lemma Glob_wildcard:
  assumes "ParseUrl url = Inr u"
    and "GetOrCreateStorageContext env opener url u st = Inr (r, st')"
    and "find_first_of (path u) wildcards = Some pos"
    and "objects st' r = Some ctx"
  shows "Glob env service url (Some opener) st =
         (case Glob_pages (service (service_client ctx) (container u)) url
                 (StringUtil_Split (path u) CHR ''/'') (path_result_prefix_of u)
                 \<lparr>Prefix = substr (path u) 0 pos, ContinuationToken = None\<rparr> [] [] of
            None \<Rightarrow> None
          | Some (Inl e) \<Rightarrow> Some (Inl e)
          | Some (Inr (result, calls)) \<Rightarrow> Some (Inr (result, calls, st')))"
  using assms by (simp add: Glob_def Let_def)

lemma Glob_pages_last:
  assumes "container_client options = Some res" and "NextPageToken res = None"
  shows "Glob_pages container_client url pattern_splits pfx options result calls =
         Some (Inr (result @ matching_urls pfx pattern_splits (Blobs res), calls @ [options]))"
  using assms by (subst Glob_pages.simps) simp

lemma Glob_pages_next:
  assumes "container_client options = Some res" and "NextPageToken res = Some token"
  shows "Glob_pages container_client url pattern_splits pfx options result calls =
         Glob_pages container_client url pattern_splits pfx
           (options\<lparr>ContinuationToken := Some token\<rparr>)
           (result @ matching_urls pfx pattern_splits (Blobs res)) (calls @ [options])"
  using assms by (subst Glob_pages.simps) simp

lemma Glob_pages_fails:
  assumes "container_client options = None"
  shows "Glob_pages container_client url pattern_splits pfx options result calls =
         Some (Inl (IOException (List_blobs_failed url)))"
  using assms by (subst Glob_pages.simps) simp

lemma Glob_paged:
  assumes "ParseUrl url = Inr u"
    and "GetOrCreateStorageContext env opener url u st = Inr (r, st')"
    and "find_first_of (path u) wildcards = Some pos"
    and "objects st' r = Some ctx"
    and "service (service_client ctx) (container u) = paged_container pages"
    and "pages \<noteq> []"
  shows "Glob env service url (Some opener) st =
         Some (Inr (matching_urls (path_result_prefix_of u)
                      (StringUtil_Split (path u) CHR ''/'') (concat pages),
                    map (\<lambda>j. \<lparr>Prefix = substr (path u) 0 pos, ContinuationToken = page_token j\<rparr>)
                      [0..<length pages],
                    st'))"
proof -
  from assms(6) have "0 < length pages"
    by simp
  from Glob_pages_paged [OF this, of url "StringUtil_Split (path u) CHR ''/''"
      "path_result_prefix_of u" "substr (path u) 0 pos" "[]" "[]"]
  show ?thesis
    by (simp add: Glob_wildcard [OF assms(1-4)] assms(5) page_token_def)
qed

lemma ParseUrl_csv:
  "ParseUrl url_csv =
     Inr \<lparr>container = ''container'', storage_account_name = ''acct'', endpoint = ''ep'',
          prefix = ''azure://'', path = ''data/**/*.csv''\<rparr>"
  by (simp add: url_csv_def ParseUrl_def rfind_0_def npos_def str_find_def str_find_char_def
      substr_def substr_from_def)

lemma Connect_ep:
  "ConnectToStorageAccount no_process_env default_opener url
     \<lparr>container = c, storage_account_name = ''acct'', endpoint = ''ep'',
      prefix = p, path = q\<rparr> =
   Inr (BlobServiceClient_anonymous ''https://acct.ep''
          \<lparr>options_Transport = default_transport, PerOperationPolicies = []\<rparr>)"
  by (simp add: ConnectToStorageAccount_def default_opener_def no_secret_def
      GetStorageAccountClient_def GetTransportOptions_opener_def GetTransportOptions_def
      TryGetCurrentSetting_def non_empty_def GetHttpState_def ToBlobClientOptions_def
      default_transport_def)

lemma lookup_ep:
  "GetOrCreateStorageContext no_process_env default_opener url
     \<lparr>container = c, storage_account_name = ''acct'', endpoint = ''ep'',
      prefix = p, path = q\<rparr> new_session =
   Inr (0, session_ep)"
proof -
  have "caches default_opener" "client_context default_opener"
    by (simp_all add: caches_def default_opener_def)
  from cache_miss [OF this _ Connect_ep, of new_session c p q url]
  show ?thesis
    by (simp add: new_session_def session_ep_def client_ep_def new_AzureContextState_def
        ParseAzureReadOptions_def default_opener_def)
qed

lemma ParseUrl_ep:
  "ParseUrl (''azure://acct.ep/container/'' @ q) =
     Inr \<lparr>container = ''container'', storage_account_name = ''acct'', endpoint = ''ep'',
          prefix = ''azure://'', path = q\<rparr>"
  by (simp add: ParseUrl_def rfind_0_def npos_def str_find_def str_find_char_def
      substr_def substr_from_def)

lemma Glob_csv:
  "glob_summary (Glob no_process_env csv_service url_csv (Some default_opener) new_session) =
     Some (Inr ([''azure://acct.ep/container/data/a/x.csv'',
                 ''azure://acct.ep/container/data/b/c/y.csv''],
                [\<lparr>Prefix = ''data/'', ContinuationToken = None\<rparr>]))"
proof -
  have w: "find_first_of ''data/**/*.csv'' wildcards = Some 5"
    by (simp add: find_first_of_def wildcards_def)
  have m: "matching_urls ''azure://acct.ep/container'' [''data'', ''**'', ''*.csv'']
             [''data/a/x.csv'', ''data/a/x.parquet'', ''data/b/c/y.csv''] =
           [''azure://acct.ep/container/data/a/x.csv'',
            ''azure://acct.ep/container/data/b/c/y.csv'']"
    by (simp add: matching_urls_def StringUtil_Split_def)
  have s: "StringUtil_Split ''data/**/*.csv'' CHR ''/'' = [''data'', ''**'', ''*.csv'']"
    by (simp add: StringUtil_Split_def)
  show ?thesis
    apply (subst Glob_paged [OF ParseUrl_csv lookup_ep, where pos = 5
          and pages = "[[''data/a/x.csv'', ''data/a/x.parquet'', ''data/b/c/y.csv'']]"])
        apply (simp add: w)
       apply (simp add: session_ep_def)
      apply (simp add: csv_service_def)
     apply simp
    apply (simp add: glob_summary_def path_result_prefix_of_def s m page_token_def substr_def)
    done
qed

lemma Glob_without_listing:
  assumes "ParseUrl url = Inr u"
    and "CHR ''*'' \<notin> set (path u)" and "CHR ''['' \<notin> set (path u)"
    and "CHR 0x5C \<notin> set (path u)"
    and "GetOrCreateStorageContext env opener url u st = Inr (r, st')"
  shows "Glob env service url (Some opener) st = Some (Inr ([url], [], st'))"
proof -
  from assms(2-4) have "find_first_of (path u) wildcards = None"
    by (simp add: find_first_of_None wildcards_def)
  from Glob_no_wildcard [OF assms(1) assms(5) this] show ?thesis .
qed

text \<open>
  C5. Once the URL is parsed and the storage context is there: if the blob path has none of
  the characters the driver looks for, which are \<open>*\<close>, \<open>[\<close> and the backslash (a \<open>?\<close> is
  not among them), the result is the input path alone and no listing call is made. Otherwise
  the driver lists with the path up to the first such character as prefix and no token; every
  key of a page is split at the slashes and kept, as prefix/account/endpoint/container URL,
  exactly when it matches the whole pattern; a page with a token is followed by one call with
  that token, a page without one ends the listing, and a failed call is the
  \<^verbatim>\<open>IOException\<close>. Against a service that serves a sequence of pages the result is the
  matching keys of all pages in listing order, with one call per page. For the path
  \<open>azure://acct.ep/container/data/**/*.csv\<close> and the keys \<open>data/a/x.csv\<close>,
  \<open>data/a/x.parquet\<close>, \<open>data/b/c/y.csv\<close> the result is the two CSV URLs, after one call
  with the prefix \<open>data/\<close>.
\<close>

theorem Glob_listing:
  "(ParseUrl url = Inr u \<and> GetOrCreateStorageContext env opener url u st = Inr (r, st') \<longrightarrow>
     (find_first_of (path u) wildcards = None \<longrightarrow>
        Glob env service url (Some opener) st = Some (Inr ([url], [], st')))
     \<and> (find_first_of (path u) wildcards = Some pos \<and> objects st' r = Some ctx \<longrightarrow>
        Glob env service url (Some opener) st =
          (case Glob_pages (service (service_client ctx) (container u)) url
                  (StringUtil_Split (path u) CHR ''/'') (path_result_prefix_of u)
                  \<lparr>Prefix = substr (path u) 0 pos, ContinuationToken = None\<rparr> [] [] of
             None \<Rightarrow> None
           | Some (Inl e) \<Rightarrow> Some (Inl e)
           | Some (Inr (result, calls)) \<Rightarrow> Some (Inr (result, calls, st')))
        \<and> (service (service_client ctx) (container u) = paged_container pages
             \<and> pages \<noteq> [] \<longrightarrow>
           Glob env service url (Some opener) st =
             Some (Inr (matching_urls (path_result_prefix_of u)
                          (StringUtil_Split (path u) CHR ''/'') (concat pages),
                        map (\<lambda>j. \<lparr>Prefix = substr (path u) 0 pos,
                                   ContinuationToken = page_token j\<rparr>)
                          [0..<length pages],
                        st')))))
   \<and> (container_client options = Some res \<and> NextPageToken res = None \<longrightarrow>
      Glob_pages container_client url pattern_splits pfx options result calls =
        Some (Inr (result @ matching_urls pfx pattern_splits (Blobs res), calls @ [options])))
   \<and> (container_client options = Some res \<and> NextPageToken res = Some token \<longrightarrow>
      Glob_pages container_client url pattern_splits pfx options result calls =
        Glob_pages container_client url pattern_splits pfx
          (options\<lparr>ContinuationToken := Some token\<rparr>)
          (result @ matching_urls pfx pattern_splits (Blobs res)) (calls @ [options]))
   \<and> (container_client options = None \<longrightarrow>
      Glob_pages container_client url pattern_splits pfx options result calls =
        Some (Inl (IOException (List_blobs_failed url))))
   \<and> matching_urls pfx pattern_splits blobs =
        map (\<lambda>key. pfx @ ''/'' @ key)
          (filter (\<lambda>key. Match (StringUtil_Split key CHR ''/'') pattern_splits) blobs)
   \<and> glob_summary (Glob no_process_env csv_service url_csv (Some default_opener) new_session) =
        Some (Inr ([''azure://acct.ep/container/data/a/x.csv'',
                    ''azure://acct.ep/container/data/b/c/y.csv''],
                   [\<lparr>Prefix = ''data/'', ContinuationToken = None\<rparr>]))"
  using Glob_no_wildcard [of url u env opener st r st' service]
    Glob_wildcard [of url u env opener st r st' pos ctx service]
    Glob_paged [of url u env opener st r st' pos ctx service pages]
    Glob_pages_last [of container_client options res url pattern_splits pfx result calls]
    Glob_pages_next [of container_client options res token url pattern_splits pfx result calls]
    Glob_pages_fails [of container_client options url pattern_splits pfx result calls]
    matching_urls_def [of pfx pattern_splits blobs] Glob_csv
  by blast

theorem Glob_listing_witness:
  "Glob no_process_env csv_service ''azure://acct.ep/container/data/x.csv''
       (Some default_opener) new_session =
     Some (Inr ([''azure://acct.ep/container/data/x.csv''], [], session_ep))
   \<and> Glob no_process_env csv_service ''azure://acct.ep/container/data/**/*.csv''
       (Some default_opener) new_session =
     Some (Inr ([''azure://acct.ep/container/data/a/x.csv'',
                 ''azure://acct.ep/container/data/b/c/y.csv''],
                [\<lparr>Prefix = ''data/'', ContinuationToken = None\<rparr>], session_ep))
   \<and> Glob_pages (paged_container [[''a''], [''b'']]) ''u'' [''*''] ''p''
       \<lparr>Prefix = [], ContinuationToken = None\<rparr> [] [] =
     Some (Inr ([''p/a'', ''p/b''],
                [\<lparr>Prefix = [], ContinuationToken = None\<rparr>,
                 \<lparr>Prefix = [], ContinuationToken = Some ''+''\<rparr>]))
   \<and> Glob_pages (paged_container []) ''u'' [''*''] ''p''
       \<lparr>Prefix = [], ContinuationToken = None\<rparr> [] [] =
     Some (Inl (IOException (List_blobs_failed ''u'')))"
proof -
  let ?ctx = "\<lparr>ctx_read_options =
                 \<lparr>transfer_concurrency = 5, transfer_chunk_size = 1048576,
                  buffer_size = 1048576\<rparr>,
               service_client = client_ep, is_valid = True\<rparr>"
  let ?keys = "[''data/a/x.csv'', ''data/a/x.parquet'', ''data/b/c/y.csv'']"
  have w: "find_first_of ''data/x.csv'' wildcards = None"
    "find_first_of ''data/**/*.csv'' wildcards = Some 5"
    by (simp_all add: find_first_of_def wildcards_def)
  have plain: "ParseUrl ''azure://acct.ep/container/data/x.csv'' =
      Inr \<lparr>container = ''container'', storage_account_name = ''acct'', endpoint = ''ep'',
          prefix = ''azure://'', path = ''data/x.csv''\<rparr>
    \<and> GetOrCreateStorageContext no_process_env default_opener
        ''azure://acct.ep/container/data/x.csv''
        \<lparr>container = ''container'', storage_account_name = ''acct'', endpoint = ''ep'',
          prefix = ''azure://'', path = ''data/x.csv''\<rparr> new_session = Inr (0, session_ep)"
    using ParseUrl_ep [of "''data/x.csv''"] lookup_ep by simp
  have first: "Glob no_process_env csv_service ''azure://acct.ep/container/data/x.csv''
       (Some default_opener) new_session =
     Some (Inr ([''azure://acct.ep/container/data/x.csv''], [], session_ep))"
    using Glob_listing [where service = csv_service, THEN conjunct1, THEN mp, OF plain,
        THEN conjunct1, THEN mp] w(1)
    by simp
  have wild: "ParseUrl ''azure://acct.ep/container/data/**/*.csv'' =
      Inr \<lparr>container = ''container'', storage_account_name = ''acct'', endpoint = ''ep'',
          prefix = ''azure://'', path = ''data/**/*.csv''\<rparr>
    \<and> GetOrCreateStorageContext no_process_env default_opener
        ''azure://acct.ep/container/data/**/*.csv''
        \<lparr>container = ''container'', storage_account_name = ''acct'', endpoint = ''ep'',
          prefix = ''azure://'', path = ''data/**/*.csv''\<rparr> new_session = Inr (0, session_ep)"
    using ParseUrl_ep [of "''data/**/*.csv''"] lookup_ep by simp
  have found: "find_first_of (path \<lparr>container = ''container'', storage_account_name = ''acct'',
          endpoint = ''ep'', prefix = ''azure://'', path = ''data/**/*.csv''\<rparr>) wildcards = Some 5
    \<and> objects session_ep 0 = Some ?ctx"
    using w(2) by (simp add: session_ep_def)
  have served: "csv_service (service_client ?ctx)
        (container \<lparr>container = ''container'', storage_account_name = ''acct'',
          endpoint = ''ep'', prefix = ''azure://'', path = ''data/**/*.csv''\<rparr>) =
      paged_container [?keys] \<and> [?keys] \<noteq> []"
    by (simp add: csv_service_def)
  have m: "matching_urls ''azure://acct.ep/container'' [''data'', ''**'', ''*.csv''] ?keys =
           [''azure://acct.ep/container/data/a/x.csv'',
            ''azure://acct.ep/container/data/b/c/y.csv'']"
    by (simp add: matching_urls_def StringUtil_Split_def)
  have s: "StringUtil_Split ''data/**/*.csv'' CHR ''/'' = [''data'', ''**'', ''*.csv'']"
    by (simp add: StringUtil_Split_def)
  have second: "Glob no_process_env csv_service ''azure://acct.ep/container/data/**/*.csv''
       (Some default_opener) new_session =
     Some (Inr ([''azure://acct.ep/container/data/a/x.csv'',
                 ''azure://acct.ep/container/data/b/c/y.csv''],
                [\<lparr>Prefix = ''data/'', ContinuationToken = None\<rparr>], session_ep))"
    using Glob_listing [where service = csv_service, THEN conjunct1, THEN mp, OF wild,
        THEN conjunct2, THEN mp, OF found, THEN conjunct2, THEN mp, OF served]
    by (simp add: path_result_prefix_of_def s m page_token_def substr_def)
  have p0: "paged_container [[''a''], [''b'']] \<lparr>Prefix = [], ContinuationToken = None\<rparr> =
            Some \<lparr>Blobs = [''a''], NextPageToken = Some ''+''\<rparr>
            \<and> NextPageToken \<lparr>Blobs = [''a''], NextPageToken = Some ''+''\<rparr> = Some ''+''"
    and p1: "paged_container [[''a''], [''b'']] \<lparr>Prefix = [], ContinuationToken = Some ''+''\<rparr> =
            Some \<lparr>Blobs = [''b''], NextPageToken = None\<rparr>
            \<and> NextPageToken \<lparr>Blobs = [''b''], NextPageToken = None\<rparr> = None"
    and p2: "paged_container [] \<lparr>Prefix = [], ContinuationToken = None\<rparr> = None"
    by (simp_all add: paged_container_def page_token_def)
  have mu: "matching_urls ''p'' [''*''] [''a''] = [''p/a'']"
    "matching_urls ''p'' [''*''] [''b''] = [''p/b'']"
    by (simp_all add: matching_urls_def StringUtil_Split_def)
  have third: "Glob_pages (paged_container [[''a''], [''b'']]) ''u'' [''*''] ''p''
       \<lparr>Prefix = [], ContinuationToken = None\<rparr> [] [] =
     Some (Inr ([''p/a'', ''p/b''],
                [\<lparr>Prefix = [], ContinuationToken = None\<rparr>,
                 \<lparr>Prefix = [], ContinuationToken = Some ''+''\<rparr>]))"
    using Glob_listing [where container_client = "paged_container [[''a''], [''b'']]"
        and options = "\<lparr>Prefix = [], ContinuationToken = None\<rparr>"
        and url = "''u''" and pattern_splits = "[''*'']" and pfx = "''p''"
        and result = "[]" and calls = "[]",
        THEN conjunct2, THEN conjunct2, THEN conjunct1, THEN mp, OF p0]
      Glob_listing [where container_client = "paged_container [[''a''], [''b'']]"
        and options = "\<lparr>Prefix = [], ContinuationToken = Some ''+''\<rparr>"
        and url = "''u''" and pattern_splits = "[''*'']" and pfx = "''p''"
        and result = "[''p/a'']" and calls = "[\<lparr>Prefix = [], ContinuationToken = None\<rparr>]",
        THEN conjunct2, THEN conjunct1, THEN mp, OF p1]
    by (simp add: mu)
  have fourth: "Glob_pages (paged_container []) ''u'' [''*''] ''p''
       \<lparr>Prefix = [], ContinuationToken = None\<rparr> [] [] =
     Some (Inl (IOException (List_blobs_failed ''u'')))"
    using Glob_listing [where container_client = "paged_container []"
        and options = "\<lparr>Prefix = [], ContinuationToken = None\<rparr>"
        and url = "''u''" and pattern_splits = "[''*'']" and pfx = "''p''"
        and result = "[]" and calls = "[]",
        THEN conjunct2, THEN conjunct2, THEN conjunct2, THEN conjunct1, THEN mp, OF p2]
    by simp
  from first second third fourth show ?thesis
    by (intro conjI)
qed

text \<open>
  A path whose only wildcard is a question mark: \<open>data/a/?.csv\<close> matches the listed key
  \<open>data/a/x.csv\<close>, but the driver makes no listing call and returns the path itself.
\<close>

theorem Glob_only_question_mark_counterexample:
  "ParseUrl ''azure://acct.ep/container/data/a/?.csv'' =
     Inr \<lparr>container = ''container'', storage_account_name = ''acct'', endpoint = ''ep'',
          prefix = ''azure://'', path = ''data/a/?.csv''\<rparr>
   \<and> Match (StringUtil_Split ''data/a/x.csv'' CHR ''/'')
       (StringUtil_Split ''data/a/?.csv'' CHR ''/'')
   \<and> Glob no_process_env csv_service ''azure://acct.ep/container/data/a/?.csv''
        (Some default_opener) new_session =
      Some (Inr ([''azure://acct.ep/container/data/a/?.csv''], [], session_ep))"
proof -
  have "Glob no_process_env csv_service ''azure://acct.ep/container/data/a/?.csv''
        (Some default_opener) new_session =
      Some (Inr ([''azure://acct.ep/container/data/a/?.csv''], [], session_ep))"
    using Glob_without_listing [OF ParseUrl_ep [of "''data/a/?.csv''", simplified] _ _ _ lookup_ep,
        of csv_service]
    by simp
  moreover have "Match (StringUtil_Split ''data/a/x.csv'' CHR ''/'')
       (StringUtil_Split ''data/a/?.csv'' CHR ''/'')"
    by (simp add: StringUtil_Split_def)
  ultimately show ?thesis
    using ParseUrl_ep [of "''data/a/?.csv''"] by simp
qed

text \<open>
  C10. The short-circuit of the driver does not look for the question mark: whenever the
  parsed blob path has no \<open>*\<close>, no \<open>[\<close> and no backslash, the result is the input path
  alone with no listing call, whatever the service would list. The per-segment matcher does
  treat \<open>?\<close> as a wildcard (\<open>ab\<close> matches \<open>a?\<close>), but the path
  \<open>azure://acct.ep/container/a?\<close> is returned as it is even when the container holds
  \<open>ab\<close>.
\<close>

theorem Glob_question_mark:
  "(ParseUrl url = Inr u
      \<and> CHR ''*'' \<notin> set (path u) \<and> CHR ''['' \<notin> set (path u) \<and> CHR 0x5C \<notin> set (path u)
      \<and> GetOrCreateStorageContext env opener url u st = Inr (r, st') \<longrightarrow>
    Glob env service url (Some opener) st = Some (Inr ([url], [], st')))
   \<and> LikeFun_Glob ''ab'' ''a?''
   \<and> Match [''ab''] [''a?'']
   \<and> Glob no_process_env question_service ''azure://acct.ep/container/a?''
        (Some default_opener) new_session =
      Some (Inr ([''azure://acct.ep/container/a?''], [], session_ep))"
proof -
  have "Glob no_process_env question_service ''azure://acct.ep/container/a?''
        (Some default_opener) new_session =
      Some (Inr ([''azure://acct.ep/container/a?''], [], session_ep))"
    using Glob_without_listing [OF ParseUrl_ep [of "''a?''", simplified] _ _ _ lookup_ep,
        of question_service]
    by simp
  moreover have "LikeFun_Glob ''ab'' ''a?''" "Match [''ab''] [''a?'']"
    by simp_all
  ultimately show ?thesis
    using Glob_without_listing [of url u env opener st r st' service]
    by blast
qed

theorem Glob_question_mark_witness:
  "CHR ''?'' \<in> set ''data/file?.csv''
   \<and> Glob no_process_env question_service ''azure://acct.ep/container/data/file?.csv''
        (Some default_opener) new_session =
      Some (Inr ([''azure://acct.ep/container/data/file?.csv''], [], session_ep))"
proof -
  have h: "ParseUrl ''azure://acct.ep/container/data/file?.csv'' =
      Inr \<lparr>container = ''container'', storage_account_name = ''acct'', endpoint = ''ep'',
          prefix = ''azure://'', path = ''data/file?.csv''\<rparr>
    \<and> CHR ''*'' \<notin> set (path \<lparr>container = ''container'', storage_account_name = ''acct'',
          endpoint = ''ep'', prefix = ''azure://'', path = ''data/file?.csv''\<rparr>)
    \<and> CHR ''['' \<notin> set (path \<lparr>container = ''container'', storage_account_name = ''acct'',
          endpoint = ''ep'', prefix = ''azure://'', path = ''data/file?.csv''\<rparr>)
    \<and> CHR 0x5C \<notin> set (path \<lparr>container = ''container'', storage_account_name = ''acct'',
          endpoint = ''ep'', prefix = ''azure://'', path = ''data/file?.csv''\<rparr>)
    \<and> GetOrCreateStorageContext no_process_env default_opener
        ''azure://acct.ep/container/data/file?.csv''
        \<lparr>container = ''container'', storage_account_name = ''acct'', endpoint = ''ep'',
          prefix = ''azure://'', path = ''data/file?.csv''\<rparr> new_session = Inr (0, session_ep)"
    using ParseUrl_ep [of "''data/file?.csv''"] lookup_ep by simp
  from Glob_question_mark [THEN conjunct1, THEN mp, OF h, of question_service]
  show ?thesis
    by simp
qed

end
